theory Spec2Isabelle
  imports Main "HOL-Library.Word"
begin

unbundle bit_operations_syntax

section \<open>Data model of tracepath.c\<close>

text \<open>
  The C types of \<^verbatim>\<open>tracepath.c\<close> (lines 58-84).  A C \<^verbatim>\<open>int\<close> is an \<open>int\<close> whose
  value stays in the 32-bit range; where the source computes a value that may leave the
  range, or converts from an unsigned type, the wrap-around is written with \<open>int32\<close>
  and \<open>sint\<close>.  Fixed-width values that arrive from the kernel are words.
\<close>

record timeval =
  tv_sec :: int
  tv_usec :: int

record hhistory =
  hops :: int
  sendtime :: timeval

record probehdr =
  ttl :: "32 word"
  tv :: timeval

text \<open>
  \<^verbatim>\<open>struct run_state\<close>.  The fields \<^verbatim>\<open>target\<close> and \<^verbatim>\<open>targetlen\<close> are not kept:
  the destination port appears in the recorded \<^verbatim>\<open>sendto\<close> call instead.  Of the
  pointer \<^verbatim>\<open>pktbuf\<close> the state keeps the size in bytes of the block it points to
  (0 before the allocation of line 584); the header written into the block appears in
  the recorded \<^verbatim>\<open>sendto\<close> call.
\<close>

record run_state =
  his :: "hhistory list"
  hisptr :: int
  base_port :: "16 word"
  max_hops :: int
  overhead :: int
  mtu :: int
  pktbuf :: nat
  hops_to :: int
  hops_from :: int
  no_resolve :: bool
  show_both :: bool
  mapped :: bool

datatype family = AF_INET | AF_INET6

text \<open>The values of \<^verbatim>\<open>ee_errno\<close> that the switch of \<^verbatim>\<open>recverr\<close> tells apart.\<close>

datatype errno =
    ETIMEDOUT | EMSGSIZE | ECONNREFUSED | EPROTO
  | EHOSTUNREACH | ENETUNREACH | EACCES | EOTHER nat

datatype ee_origin_t =
    SO_EE_ORIGIN_NONE | SO_EE_ORIGIN_LOCAL | SO_EE_ORIGIN_ICMP | SO_EE_ORIGIN_ICMP6
  | SO_EE_ORIGIN_OTHER

record sock_extended_err =
  ee_errno :: errno
  ee_origin :: ee_origin_t
  ee_type :: "8 word"
  ee_code :: "8 word"
  ee_info :: "32 word"

text \<open>
  One ancillary message, by level and type, with its data as \<^verbatim>\<open>recverr\<close> reads it:
  the extended error record, the hop limit as a 32-bit \<^verbatim>\<open>int\<close> (IPv6) or as the first
  byte of the data (IPv4), or only the type number where the source prints it.
\<close>

datatype cmsghdr =
    Cmsg_IPV6_RECVERR sock_extended_err
  | Cmsg_IPV6_HOPLIMIT "32 word"
  | Cmsg_IPV6_other int
  | Cmsg_IP_RECVERR sock_extended_err
  | Cmsg_IP_TTL "8 word"
  | Cmsg_IP_other int
  | Cmsg_other_level

text \<open>
  What one successful \<^verbatim>\<open>recvmsg(fd, &msg, MSG_ERRQUEUE)\<close> delivers, together with the
  time \<^verbatim>\<open>gettimeofday\<close> gave just before it: the number of payload bytes, the receive
  buffer after the call, the port of \<^verbatim>\<open>msg_name\<close> after \<^verbatim>\<open>ntohs\<close>, and the
  ancillary messages in order.
\<close>

record errmsg =
  now :: timeval
  recv_size :: int
  rcvbuf :: probehdr
  port :: "16 word"
  cmsgs :: "cmsghdr list"

datatype recvmsg_ret = Recvmsg_EAGAIN | Recvmsg_fail | Recvmsg_ok errmsg

text \<open>
  The observable actions of the program, in order: every \<^verbatim>\<open>printf\<close> of the probing
  engine with its arguments, and every \<^verbatim>\<open>sendto\<close> with the requested length, the
  destination port (host order) and the header in the packet buffer.
\<close>

datatype event =
    Out_cmsg6 int
  | Out_cmsg4 int
  | Out_no_info
  | Out_localhost int
  | Out_hop int
  | Out_hop_guess int
  | Out_host
  | Out_rtt int int
  | Out_broken_router
  | Out_newline
  | Out_pmtu int
  | Out_reached
  | Out_bang_P
  | Out_bang_H
  | Out_bang_N
  | Out_bang_A
  | Out_asymm int
  | Out_net_error nat
  | Out_reply_received int
  | Out_send_failed int
  | Out_no_reply int
  | Out_too_many_hops int
  | Out_resume int "int option" "int option"
  | Sendto int "16 word" probehdr
  | Out_perror string
  | Out_pktlen_error int

section \<open>C arithmetic\<close>

text \<open>
  \<open>int32\<close> brings a value into the range of a 32-bit \<^verbatim>\<open>int\<close> by wrap-around;
  \<open>c_div\<close> and \<open>c_mod\<close> are the operators \<^verbatim>\<open>/\<close> and \<^verbatim>\<open>%\<close> of C, which truncate
  towards zero.
\<close>

definition int32 :: "int \<Rightarrow> int" where
  "int32 x = signed_take_bit 31 x"

definition c_div :: "int \<Rightarrow> int \<Rightarrow> int" where
  "c_div a b = sgn a * sgn b * (\<bar>a\<bar> div \<bar>b\<bar>)"

definition c_mod :: "int \<Rightarrow> int \<Rightarrow> int" where
  "c_mod a b = a - b * c_div a b"

text \<open>
  \<^verbatim>\<open>sizeof(struct probehdr)\<close> where \<^verbatim>\<open>long\<close> has 64 bits: four bytes of TTL, four of
  padding, sixteen of \<^verbatim>\<open>struct timeval\<close>.
\<close>

definition sizeof_probehdr :: int where
  "sizeof_probehdr = 24"

section \<open>The error decoder: recverr (lines 116-333)\<close>

text \<open>
  The arguments \<^verbatim>\<open>fd\<close> and \<^verbatim>\<open>ai\<close> of the source are not arguments here: the socket
  is the environment, and the address family only selects the field of \<^verbatim>\<open>msg_name\<close>
  that holds the port, which a message carries as \<open>port\<close>.
\<close>

text \<open>Lines 167-175: the slot is the received port minus the base port, as an \<^verbatim>\<open>int\<close>.\<close>

definition slot_of :: "run_state \<Rightarrow> errmsg \<Rightarrow> int" where
  "slot_of ctl m = - uint (base_port ctl) + uint (port m)"

text \<open>
  Lines 161-181: \<open>sndhops\<close> and \<open>rettv\<close> start as \<open>-1\<close> and \<^verbatim>\<open>NULL\<close>; a slot in
  \<open>0..62\<close> with a non-zero hop count supplies both and is cleared.
\<close>

definition take_his :: "run_state \<Rightarrow> int \<Rightarrow> int \<times> timeval option \<times> run_state" where
  "take_his ctl slot =
     (if 0 \<le> slot \<and> slot < 63 \<and> hops (his ctl ! nat slot) \<noteq> 0
      then (hops (his ctl ! nat slot),
            Some (sendtime (his ctl ! nat slot)),
            ctl\<lparr>his := (his ctl)[nat slot := (his ctl ! nat slot)\<lparr>hops := 0\<rparr>]\<rparr>)
      else (-1, None, ctl))"

text \<open>
  Lines 182-189: a payload of the full header size either marks a broken router (a zero
  TTL or a zero seconds field) or replaces \<open>sndhops\<close> and \<open>rettv\<close>.
\<close>

definition use_payload ::
  "errmsg \<Rightarrow> int \<times> timeval option \<Rightarrow> int \<times> timeval option \<times> bool" where
  "use_payload m st =
     (if recv_size m = sizeof_probehdr
      then (if ttl (rcvbuf m) = 0 \<or> tv_sec (tv (rcvbuf m)) = 0
            then (fst st, snd st, True)
            else (sint (ttl (rcvbuf m)), Some (tv (rcvbuf m)), False))
      else (fst st, snd st, False))"

text \<open>
  Lines 191-220: the loop over the ancillary messages.  The state is the error record
  found so far and \<open>rethops\<close>; the result also lists what was printed.
\<close>

fun scan_cmsgs ::
  "cmsghdr list \<Rightarrow> sock_extended_err option \<Rightarrow> int
     \<Rightarrow> sock_extended_err option \<times> int \<times> event list" where
  "scan_cmsgs [] e rethops = (e, rethops, [])"
| "scan_cmsgs (Cmsg_IPV6_RECVERR x # cs) e rethops = scan_cmsgs cs (Some x) rethops"
| "scan_cmsgs (Cmsg_IPV6_HOPLIMIT h # cs) e rethops = scan_cmsgs cs e (sint h)"
| "scan_cmsgs (Cmsg_IPV6_other ty # cs) e rethops =
     (case scan_cmsgs cs e rethops of (e', r', out) \<Rightarrow> (e', r', Out_cmsg6 ty # out))"
| "scan_cmsgs (Cmsg_IP_RECVERR x # cs) e rethops = scan_cmsgs cs (Some x) rethops"
| "scan_cmsgs (Cmsg_IP_TTL b # cs) e rethops = scan_cmsgs cs e (uint b)"
| "scan_cmsgs (Cmsg_IP_other ty # cs) e rethops =
     (case scan_cmsgs cs e rethops of (e', r', out) \<Rightarrow> (e', r', Out_cmsg4 ty # out))"
| "scan_cmsgs (Cmsg_other_level # cs) e rethops = scan_cmsgs cs e rethops"

text \<open>Lines 225-268: the hop label and the responder.  Name resolution is not modelled.\<close>

definition print_origin :: "sock_extended_err \<Rightarrow> int \<Rightarrow> int \<Rightarrow> event list" where
  "print_origin e sndhops the_ttl =
     (if ee_origin e = SO_EE_ORIGIN_LOCAL then [Out_localhost the_ttl]
      else if ee_origin e = SO_EE_ORIGIN_ICMP6 \<or> ee_origin e = SO_EE_ORIGIN_ICMP
      then [if sndhops > 0 then Out_hop sndhops else Out_hop_guess the_ttl, Out_host]
      else [])"

text \<open>Lines 270-276: the round-trip time, and the note on a corrupted payload.\<close>

definition print_rtt :: "timeval \<Rightarrow> timeval option \<Rightarrow> bool \<Rightarrow> event list" where
  "print_rtt t rettv broken_router =
     (case rettv of
        None \<Rightarrow> []
      | Some r \<Rightarrow>
          (let diff = int32 ((tv_sec t - tv_sec r) * 1000000 + (tv_usec t - tv_usec r))
           in Out_rtt (c_div diff 1000) (c_mod diff 1000)
              # (if broken_router then [Out_broken_router] else [])))"

text \<open>Lines 278-283.\<close>

definition norm_rethops :: "int \<Rightarrow> int" where
  "norm_rethops rethops =
     (if rethops \<le> 64 then int32 (65 - rethops)
      else if rethops \<le> 128 then int32 (129 - rethops)
      else int32 (256 - rethops))"

text \<open>
  Lines 285-331: the switch on \<^verbatim>\<open>ee_errno\<close>.  \<open>Restart p\<close> is \<^verbatim>\<open>goto restart\<close> with
  \<open>progress = p\<close>; \<open>Return r\<close> is \<^verbatim>\<open>return r\<close>.
\<close>

datatype flow = Restart int | Return int

definition canonical :: "sock_extended_err \<Rightarrow> bool" where
  "canonical e \<longleftrightarrow>
     (ee_origin e = SO_EE_ORIGIN_ICMP \<and> ee_type e = 11 \<and> ee_code e = 0) \<or>
     (ee_origin e = SO_EE_ORIGIN_ICMP6 \<and> ee_type e = 3 \<and> ee_code e = 0)"

definition asymm :: "int \<Rightarrow> int \<Rightarrow> int \<Rightarrow> event list" where
  "asymm rethops sndhops the_ttl =
     (if rethops \<ge> 0
      then (if sndhops \<ge> 0 \<and> rethops \<noteq> sndhops then [Out_asymm rethops]
            else if sndhops < 0 \<and> rethops \<noteq> the_ttl then [Out_asymm rethops]
            else [])
      else [])"

definition classify ::
  "run_state \<Rightarrow> int \<Rightarrow> sock_extended_err \<Rightarrow> int \<Rightarrow> int \<Rightarrow> int
     \<Rightarrow> flow \<times> run_state \<times> event list" where
  "classify ctl the_ttl e sndhops rethops progress =
     (case ee_errno e of
        ETIMEDOUT \<Rightarrow> (Restart progress, ctl, [Out_newline])
      | EMSGSIZE \<Rightarrow>
          (Restart (sint (ee_info e)), ctl\<lparr>mtu := sint (ee_info e)\<rparr>,
           [Out_pmtu (sint (ee_info e))])
      | ECONNREFUSED \<Rightarrow>
          (Return 0,
           ctl\<lparr>hops_to := (if sndhops < 0 then the_ttl else sndhops), hops_from := rethops\<rparr>,
           [Out_reached])
      | EPROTO \<Rightarrow> (Return 0, ctl, [Out_bang_P])
      | EHOSTUNREACH \<Rightarrow>
          (if canonical e
           then (Restart progress, ctl, asymm rethops sndhops the_ttl @ [Out_newline])
           else (Return 0, ctl, [Out_bang_H]))
      | ENETUNREACH \<Rightarrow> (Return 0, ctl, [Out_bang_N])
      | EACCES \<Rightarrow> (Return 0, ctl, [Out_bang_A])
      | EOTHER n \<Rightarrow> (Return 0, ctl, [Out_newline, Out_net_error n]))"

text \<open>Lines 159-331: one pass of the body of \<^verbatim>\<open>recverr\<close> after a successful \<^verbatim>\<open>recvmsg\<close>.\<close>

definition recverr_msg :: "run_state \<Rightarrow> int \<Rightarrow> errmsg \<Rightarrow> flow \<times> run_state \<times> event list" where
  "recverr_msg ctl the_ttl m =
     (let progress = mtu ctl;
          (sndhops1, rettv1, ctl1) = take_his ctl (slot_of ctl m);
          (sndhops, rettv, broken_router) = use_payload m (sndhops1, rettv1);
          (e, rethops, out1) = scan_cmsgs (cmsgs m) None (-1)
      in case e of
           None \<Rightarrow> (Return 0, ctl1, out1 @ [Out_no_info])
         | Some e \<Rightarrow>
             (let out2 = print_origin e sndhops the_ttl;
                  out3 = print_rtt (now m) rettv broken_router;
                  (fl, ctl2, out4) = classify ctl1 the_ttl e sndhops (norm_rethops rethops) progress
              in (fl, ctl2, out1 @ out2 @ out3 @ out4)))"

text \<open>
  The whole of \<^verbatim>\<open>recverr\<close>: the queue is the list of results the successive
  \<^verbatim>\<open>recvmsg\<close> calls give; an exhausted list answers \<^verbatim>\<open>EAGAIN\<close>.  The result is the
  return value, the session state, the rest of the queue and the events.
\<close>

fun recverr_loop ::
  "int \<Rightarrow> run_state \<Rightarrow> int \<Rightarrow> recvmsg_ret list
     \<Rightarrow> int \<times> run_state \<times> recvmsg_ret list \<times> event list" where
  "recverr_loop progress ctl the_ttl [] = (progress, ctl, [], [])"
| "recverr_loop progress ctl the_ttl (Recvmsg_EAGAIN # q) = (progress, ctl, q, [])"
| "recverr_loop progress ctl the_ttl (Recvmsg_fail # q) = recverr_loop progress ctl the_ttl q"
| "recverr_loop progress ctl the_ttl (Recvmsg_ok m # q) =
     (case recverr_msg ctl the_ttl m of
        (Return r, ctl', out) \<Rightarrow> (r, ctl', q, out)
      | (Restart p, ctl', out) \<Rightarrow>
          (case recverr_loop p ctl' the_ttl q of
             (r, ctl'', q', out') \<Rightarrow> (r, ctl'', q', out @ out')))"

definition recverr ::
  "run_state \<Rightarrow> int \<Rightarrow> recvmsg_ret list \<Rightarrow> int \<times> run_state \<times> recvmsg_ret list \<times> event list" where
  "recverr ctl the_ttl q = recverr_loop (-1) ctl the_ttl q"

section \<open>The environment\<close>

text \<open>
  What the operating system answers, as finite scripts that the calls consume in order:
  \<^item> \<open>sendto_rets\<close>: for each send attempt, the time \<^verbatim>\<open>gettimeofday\<close> gives before it
    and whether \<^verbatim>\<open>sendto\<close> accepts the datagram (it then returns the requested
    length, otherwise \<open>-1\<close>); an exhausted script refuses;
  \<^item> \<open>recvmsg_rets\<close>: the results of \<^verbatim>\<open>recvmsg\<close> on the error queue; an exhausted
    script answers \<^verbatim>\<open>EAGAIN\<close>;
  \<^item> \<open>recv_rets\<close>: for each \<^verbatim>\<open>recv(..., MSG_DONTWAIT)\<close> after the wait, the length
    of the datagram that is waiting on the socket, or a negative number when none is; an
    exhausted script has none;
  \<^item> \<open>setsockopt_rets\<close>: whether each \<^verbatim>\<open>setsockopt\<close> succeeds; an exhausted script
    succeeds;
  \<^item> \<open>malloc_ok\<close>: whether the packet buffer can be allocated.
  Because the scripts are finite, every loop of the program ends: the functions below are
  total, and their termination is proved from the length of the error queue.
\<close>

record world =
  sendto_rets :: "(timeval \<times> bool) list"
  recvmsg_rets :: "recvmsg_ret list"
  recv_rets :: "int list"
  setsockopt_rets :: "bool list"
  malloc_ok :: bool

text \<open>Conversions to \<^verbatim>\<open>size_t\<close> and \<^verbatim>\<open>ssize_t\<close> (64 bits).\<close>

definition size_t :: "int \<Rightarrow> int" where
  "size_t x = take_bit 64 x"

definition ssize_t :: "int \<Rightarrow> int" where
  "ssize_t x = signed_take_bit 63 x"

text \<open>\<open>emit out r\<close> puts the events \<open>out\<close> before those of the result \<open>r\<close>.\<close>

definition emit :: "event list \<Rightarrow> 'a \<times> run_state \<times> 'w \<times> event list \<Rightarrow> 'a \<times> run_state \<times> 'w \<times> event list" where
  "emit out r = (case r of (x, ctl, w, out') \<Rightarrow> (x, ctl, w, out @ out'))"

section \<open>The probe engine: probe_ttl (lines 335-382)\<close>

text \<open>
  The packet buffer is allocated once, at line 584, and the program uses it at four
  places with a size that does not come from the allocation: the \<^verbatim>\<open>memset\<close> of line
  340 writes \<^verbatim>\<open>ctl->mtu\<close> bytes, lines 345 and 356 write the header
  (\<^verbatim>\<open>sizeof(struct probehdr)\<close> bytes), a \<^verbatim>\<open>sendto\<close> that the kernel accepts (line 359)
  reads the bytes it sends, and the \<^verbatim>\<open>recv\<close> of line 373 writes the bytes of a waiting
  datagram, at most \<^verbatim>\<open>ctl->mtu\<close>.  An access that goes past the end of the block has
  no defined result: \<^verbatim>\<open>probe_ttl\<close> is then taken not to return, which is the result
  \<open>Overrun\<close>, and the model says nothing about what follows.  Otherwise the result is
  \<open>Res r\<close> for the returned \<^verbatim>\<open>int\<close>.
\<close>

datatype ret = Res int | Overrun

text \<open>Line 356 and the kernel's answer to the \<^verbatim>\<open>sendto\<close> of line 359.\<close>

definition gettimeofday_sendto :: "world \<Rightarrow> timeval \<times> bool \<times> world" where
  "gettimeofday_sendto w =
     (case sendto_rets w of
        [] \<Rightarrow> (\<lparr>tv_sec = 0, tv_usec = 0\<rparr>, False, w)
      | (t, ok) # rest \<Rightarrow> (t, ok, w\<lparr>sendto_rets := rest\<rparr>))"

text \<open>
  Line 373: what \<^verbatim>\<open>recv(fd, pktbuf, mtu, MSG_DONTWAIT)\<close> returns, which is also the
  number of bytes it writes into the packet buffer: of a waiting datagram as many bytes
  as the length argument (\<^verbatim>\<open>ctl->mtu\<close> as \<^verbatim>\<open>size_t\<close>) allows, and \<open>-1\<close> when
  nothing is waiting.
\<close>

definition recv_dontwait :: "run_state \<Rightarrow> world \<Rightarrow> int \<times> world" where
  "recv_dontwait ctl w =
     (case recv_rets w of
        [] \<Rightarrow> (-1, w)
      | d # rest \<Rightarrow> (if d < 0 then -1 else min d (size_t (mtu ctl)), w\<lparr>recv_rets := rest\<rparr>))"

text \<open>Lines 357-358 and line 363: the history entry at \<open>hisptr\<close> is written, then cleared.\<close>

definition record_probe :: "run_state \<Rightarrow> int \<Rightarrow> timeval \<Rightarrow> run_state" where
  "record_probe ctl the_ttl t =
     ctl\<lparr>his := (his ctl)[nat (hisptr ctl) := \<lparr>hops = the_ttl, sendtime = t\<rparr>]\<rparr>"

definition clear_probe :: "run_state \<Rightarrow> run_state" where
  "clear_probe ctl =
     ctl\<lparr>his := (his ctl)[nat (hisptr ctl) := (his ctl ! nat (hisptr ctl))\<lparr>hops := 0\<rparr>]\<rparr>"

text \<open>
  Lines 345-360: the \<^verbatim>\<open>sendto\<close> call with its length \<^verbatim>\<open>ctl->mtu - ctl->overhead\<close>
  (an \<^verbatim>\<open>int\<close>, passed as \<^verbatim>\<open>size_t\<close>), the port \<^verbatim>\<open>htons(base_port + hisptr)\<close>
  and the header, and the value it returns.
\<close>

definition sendto_call :: "run_state \<Rightarrow> int \<Rightarrow> timeval \<Rightarrow> event" where
  "sendto_call ctl the_ttl t =
     Sendto (size_t (int32 (mtu ctl - overhead ctl)))
            (word_of_int (uint (base_port ctl) + hisptr ctl))
            \<lparr>ttl = word_of_int the_ttl, tv = t\<rparr>"

definition sendto_ret :: "run_state \<Rightarrow> bool \<Rightarrow> int" where
  "sendto_ret ctl ok = (if ok then ssize_t (size_t (int32 (mtu ctl - overhead ctl))) else -1)"

text \<open>
  Lines 369-378, after a send that succeeded and with \<open>hisptr\<close> already advanced: a
  reply on the socket ends the stage, unless it is longer than the packet buffer;
  without a reply the decoder runs.
\<close>

definition probe_wait :: "run_state \<Rightarrow> int \<Rightarrow> world \<Rightarrow> ret \<times> run_state \<times> world \<times> event list" where
  "probe_wait ctl the_ttl w =
     (case recv_dontwait ctl w of
        (n, w') \<Rightarrow>
          if int (pktbuf ctl) < n then (Overrun, ctl, w', [])
          else if n > 0 then (Res 0, ctl, w', [Out_reply_received the_ttl])
          else (case recverr ctl the_ttl (recvmsg_rets w') of
                  (res, ctl', q', out) \<Rightarrow> (Res res, ctl', w'\<lparr>recvmsg_rets := q'\<rparr>, out)))"

text \<open>The decoder never lengthens the error queue, and shortens it unless it was empty.\<close>

lemma recverr_loop_queue:
  "recverr_loop p ctl t q = (r, ctl', q', out) \<Longrightarrow>
     (q = [] \<longrightarrow> r = p \<and> ctl' = ctl \<and> q' = []) \<and> (q \<noteq> [] \<longrightarrow> length q' < length q)"
proof (induction p ctl t q arbitrary: r ctl' q' out rule: recverr_loop.induct)
  case (4 progress ctl the_ttl m q)
  then show ?case
    by (fastforce split: prod.splits flow.splits)
qed auto

lemma recverr_queue_le: "recverr ctl t q = (r, ctl', q', out) \<Longrightarrow> length q' \<le> length q"
  using recverr_loop_queue [of "-1" ctl t q r ctl' q' out] by (cases q) (auto simp: recverr_def)

lemma recverr_queue_less:
  "recverr ctl t q = (r, ctl', q', out) \<Longrightarrow> r > 0 \<Longrightarrow> length q' < length q"
  using recverr_loop_queue [of "-1" ctl t q r ctl' q' out] by (cases q) (auto simp: recverr_def)

text \<open>
  Lines 341-381: the loop \<^verbatim>\<open>for (i = 0; i < 10; i++)\<close> with its label \<^verbatim>\<open>restart\<close>.
  Each iteration writes the header into the packet buffer.  A send that succeeds has
  read as many bytes as it returns.  A send that fails runs the decoder: \<open>res = 0\<close>
  returns, \<open>res > 0\<close> starts the loop again at \<open>i = 0\<close>, a negative \<open>res\<close> goes on
  with \<open>i + 1\<close>.  Ten failures in a row print \<^verbatim>\<open>send failed\<close>.
\<close>

function probe_loop ::
  "run_state \<Rightarrow> int \<Rightarrow> nat \<Rightarrow> world \<Rightarrow> ret \<times> run_state \<times> world \<times> event list" where
  "probe_loop ctl the_ttl i w =
     (if i < 10
      then (if int (pktbuf ctl) < sizeof_probehdr then (Overrun, ctl, w, [])
            else (case gettimeofday_sendto w of
              (t, ok, w1) \<Rightarrow>
                (let ctl1 = record_probe ctl the_ttl t;
                     ev = sendto_call ctl1 the_ttl t
                 in if sendto_ret ctl1 ok > 0
                    then (if int (pktbuf ctl1) < sendto_ret ctl1 ok then (Overrun, ctl1, w1, [ev])
                          else emit [ev]
                                 (probe_wait (ctl1\<lparr>hisptr := (hisptr ctl1 + 1) AND 63\<rparr>) the_ttl w1))
                    else (case recverr ctl1 the_ttl (recvmsg_rets w1) of
                            (res, ctl2, q', out) \<Rightarrow>
                              (let ctl3 = clear_probe ctl2;
                                   w2 = w1\<lparr>recvmsg_rets := q'\<rparr>
                               in if res = 0 then (Res 0, ctl3, w2, ev # out)
                                  else if res > 0
                                  then emit (ev # out) (probe_loop ctl3 the_ttl 0 w2)
                                  else emit (ev # out) (probe_loop ctl3 the_ttl (i + 1) w2))))))
      else (Res 0, ctl\<lparr>hisptr := (hisptr ctl + 1) AND 63\<rparr>, w, [Out_send_failed the_ttl]))"
  by pat_completeness auto
termination
  apply (relation "measures [\<lambda>(ctl, t, i, w). length (recvmsg_rets w), \<lambda>(ctl, t, i, w). 10 - i]")
    apply simp
   apply (auto simp: gettimeofday_sendto_def split: list.splits dest!: sym [of "(_, _)" "recverr _ _ _"] dest: recverr_queue_less recverr_queue_le)
  done


declare probe_loop.simps [simp del]

text \<open>Lines 335-340: the \<^verbatim>\<open>memset\<close> of \<^verbatim>\<open>ctl->mtu\<close> bytes (as \<^verbatim>\<open>size_t\<close>), then the loop.\<close>

definition probe_ttl :: "run_state \<Rightarrow> int \<Rightarrow> world \<Rightarrow> ret \<times> run_state \<times> world \<times> event list" where
  "probe_ttl ctl the_ttl w =
     (if int (pktbuf ctl) < size_t (mtu ctl) then (Overrun, ctl, w, [])
      else probe_loop ctl the_ttl 0 w)"

lemma recverr_queue_mtu:
  "recverr ctl t q = (r, ctl', q', out) \<Longrightarrow> mtu ctl' \<noteq> mtu ctl \<Longrightarrow> length q' < length q"
  using recverr_loop_queue [of "-1" ctl t q r ctl' q' out] by (cases q) (auto simp: recverr_def)

lemma gettimeofday_sendto_queue:
  "gettimeofday_sendto w = (t, ok, w1) \<Longrightarrow> recvmsg_rets w1 = recvmsg_rets w"
  by (auto simp: gettimeofday_sendto_def split: list.splits)

lemma recv_dontwait_queue:
  "recv_dontwait ctl w = (n, w') \<Longrightarrow> recvmsg_rets w' = recvmsg_rets w"
  by (auto simp: recv_dontwait_def split: list.splits)

text \<open>The ways through \<^verbatim>\<open>probe_wait\<close>.\<close>

lemma probe_wait_cases:
  assumes "probe_wait ctl t w = (r, ctl', w', out)"
  obtains (overrun) n where "recv_dontwait ctl w = (n, w')" "int (pktbuf ctl) < n"
      "r = Overrun" "ctl' = ctl" "out = []"
    | (reply) n where "recv_dontwait ctl w = (n, w')" "\<not> int (pktbuf ctl) < n" "n > 0"
      "r = Res 0" "ctl' = ctl" "out = [Out_reply_received t]"
    | (decoded) n w1 res q' where "recv_dontwait ctl w = (n, w1)" "\<not> int (pktbuf ctl) < n" "\<not> n > 0"
      "recverr ctl t (recvmsg_rets w1) = (res, ctl', q', out)"
      "r = Res res" "w' = w1\<lparr>recvmsg_rets := q'\<rparr>"
  using assms
  by (auto simp: probe_wait_def split: prod.splits if_splits)

lemma probe_wait_queue:
  assumes "probe_wait ctl t w = (r, ctl', w', out)"
  shows "length (recvmsg_rets w') \<le> length (recvmsg_rets w) \<and>
         (mtu ctl' \<noteq> mtu ctl \<longrightarrow> length (recvmsg_rets w') < length (recvmsg_rets w))"
  using assms
proof (cases rule: probe_wait_cases)
  case (decoded n w1 res q')
  from recv_dontwait_queue [OF decoded(1)] recverr_queue_le [OF decoded(4)]
    recverr_queue_mtu [OF decoded(4)] decoded(6)
  show ?thesis by auto
qed (auto dest: recv_dontwait_queue)

text \<open>The ways through one iteration of the loop, and induction along them.\<close>

lemma probe_loop_exhausted:
  "\<not> i < 10 \<Longrightarrow>
   probe_loop ctl the_ttl i w =
     (Res 0, ctl\<lparr>hisptr := (hisptr ctl + 1) AND 63\<rparr>, w, [Out_send_failed the_ttl])"
  by (simp add: probe_loop.simps [of ctl the_ttl i w])

lemma probe_loop_overrun:
  "i < 10 \<Longrightarrow> int (pktbuf ctl) < sizeof_probehdr \<Longrightarrow> probe_loop ctl the_ttl i w = (Overrun, ctl, w, [])"
  by (simp add: probe_loop.simps [of ctl the_ttl i w])

lemma probe_loop_overread:
  "i < 10 \<Longrightarrow> \<not> int (pktbuf ctl) < sizeof_probehdr \<Longrightarrow> gettimeofday_sendto w = (t, ok, w1) \<Longrightarrow>
   sendto_ret (record_probe ctl the_ttl t) ok > 0 \<Longrightarrow>
   int (pktbuf ctl) < sendto_ret (record_probe ctl the_ttl t) ok \<Longrightarrow>
   probe_loop ctl the_ttl i w =
     (Overrun, record_probe ctl the_ttl t, w1, [sendto_call (record_probe ctl the_ttl t) the_ttl t])"
  by (simp add: probe_loop.simps [of ctl the_ttl i w] Let_def record_probe_def)

lemma probe_loop_sent:
  "i < 10 \<Longrightarrow> \<not> int (pktbuf ctl) < sizeof_probehdr \<Longrightarrow> gettimeofday_sendto w = (t, ok, w1) \<Longrightarrow>
   sendto_ret (record_probe ctl the_ttl t) ok > 0 \<Longrightarrow>
   \<not> int (pktbuf ctl) < sendto_ret (record_probe ctl the_ttl t) ok \<Longrightarrow>
   probe_loop ctl the_ttl i w =
     emit [sendto_call (record_probe ctl the_ttl t) the_ttl t]
       (probe_wait ((record_probe ctl the_ttl t)
                      \<lparr>hisptr := (hisptr (record_probe ctl the_ttl t) + 1) AND 63\<rparr>) the_ttl w1)"
  by (simp add: probe_loop.simps [of ctl the_ttl i w] Let_def record_probe_def)

lemma probe_loop_failed:
  "i < 10 \<Longrightarrow> \<not> int (pktbuf ctl) < sizeof_probehdr \<Longrightarrow> gettimeofday_sendto w = (t, ok, w1) \<Longrightarrow>
   \<not> sendto_ret (record_probe ctl the_ttl t) ok > 0 \<Longrightarrow>
   recverr (record_probe ctl the_ttl t) the_ttl (recvmsg_rets w1) = (res, ctl2, q', out) \<Longrightarrow>
   probe_loop ctl the_ttl i w =
     (if res = 0
      then (Res 0, clear_probe ctl2, w1\<lparr>recvmsg_rets := q'\<rparr>,
            sendto_call (record_probe ctl the_ttl t) the_ttl t # out)
      else emit (sendto_call (record_probe ctl the_ttl t) the_ttl t # out)
             (probe_loop (clear_probe ctl2) the_ttl (if res > 0 then 0 else i + 1)
                (w1\<lparr>recvmsg_rets := q'\<rparr>)))"
  by (simp add: probe_loop.simps [of ctl the_ttl i w] Let_def)

lemma probe_loop_cases [case_names exhausted overrun overread sent failed]:
  assumes "\<And>ctl the_ttl i w. \<not> i < 10 \<Longrightarrow> P ctl the_ttl i w"
    and "\<And>ctl the_ttl i w. i < 10 \<Longrightarrow> int (pktbuf ctl) < sizeof_probehdr \<Longrightarrow> P ctl the_ttl i w"
    and "\<And>ctl the_ttl i w t ok w1.
           i < 10 \<Longrightarrow> \<not> int (pktbuf ctl) < sizeof_probehdr \<Longrightarrow> gettimeofday_sendto w = (t, ok, w1) \<Longrightarrow>
           sendto_ret (record_probe ctl the_ttl t) ok > 0 \<Longrightarrow>
           int (pktbuf ctl) < sendto_ret (record_probe ctl the_ttl t) ok \<Longrightarrow> P ctl the_ttl i w"
    and "\<And>ctl the_ttl i w t ok w1.
           i < 10 \<Longrightarrow> \<not> int (pktbuf ctl) < sizeof_probehdr \<Longrightarrow> gettimeofday_sendto w = (t, ok, w1) \<Longrightarrow>
           sendto_ret (record_probe ctl the_ttl t) ok > 0 \<Longrightarrow>
           \<not> int (pktbuf ctl) < sendto_ret (record_probe ctl the_ttl t) ok \<Longrightarrow> P ctl the_ttl i w"
    and "\<And>ctl the_ttl i w t ok w1 res ctl2 q' out.
           i < 10 \<Longrightarrow> \<not> int (pktbuf ctl) < sizeof_probehdr \<Longrightarrow> gettimeofday_sendto w = (t, ok, w1) \<Longrightarrow>
           \<not> sendto_ret (record_probe ctl the_ttl t) ok > 0 \<Longrightarrow>
           recverr (record_probe ctl the_ttl t) the_ttl (recvmsg_rets w1) = (res, ctl2, q', out) \<Longrightarrow>
           (res \<noteq> 0 \<Longrightarrow>
              P (clear_probe ctl2) the_ttl (if res > 0 then 0 else i + 1) (w1\<lparr>recvmsg_rets := q'\<rparr>)) \<Longrightarrow>
           P ctl the_ttl i w"
  shows "P (ctl :: run_state) (the_ttl :: int) (i :: nat) (w :: world)"
proof (induction ctl the_ttl i w rule: probe_loop.induct)
  case (1 ctl the_ttl i w)
  show ?case
  proof (cases "i < 10")
    case False
    then show ?thesis by (rule assms(1))
  next
    case True
    show ?thesis
    proof (cases "int (pktbuf ctl) < sizeof_probehdr")
      case small: True
      with True show ?thesis by (rule assms(2))
    next
      case fits: False
      obtain t ok w1 where g: "gettimeofday_sendto w = (t, ok, w1)"
        by (cases "gettimeofday_sendto w") auto
      show ?thesis
      proof (cases "sendto_ret (record_probe ctl the_ttl t) ok > 0")
        case sent: True
        show ?thesis
        proof (cases "int (pktbuf ctl) < sendto_ret (record_probe ctl the_ttl t) ok")
          case True
          from \<open>i < 10\<close> fits g sent True show ?thesis by (rule assms(3))
        next
          case False
          from \<open>i < 10\<close> fits g sent False show ?thesis by (rule assms(4))
        qed
      next
        case unsent: False
        obtain res ctl2 q' out where
          re: "recverr (record_probe ctl the_ttl t) the_ttl (recvmsg_rets w1) = (res, ctl2, q', out)"
          by (metis prod_cases4)
        from True fits g unsent re show ?thesis
        proof (rule assms(5))
          assume nz: "res \<noteq> 0"
          show "P (clear_probe ctl2) the_ttl (if res > 0 then 0 else i + 1) (w1\<lparr>recvmsg_rets := q'\<rparr>)"
          proof (cases "res > 0")
            case True
            with "1.IH"(1) [OF \<open>i < 10\<close> fits g [symmetric] refl refl refl _ re [symmetric] refl refl refl refl nz]
              unsent show ?thesis by simp
          next
            case False
            with "1.IH"(2) [OF \<open>i < 10\<close> fits g [symmetric] refl refl refl _ re [symmetric] refl refl refl refl nz]
              unsent show ?thesis by simp
          qed
        qed
      qed
    qed
  qed
qed

lemma emit_eq: "emit ev x = (r, c, w, out) \<longleftrightarrow> (\<exists>o'. x = (r, c, w, o') \<and> out = ev @ o')"
  by (cases x) (auto simp: emit_def)

lemma probe_loop_queue:
  "probe_loop ctl t i w = (r, ctl', w', out) \<Longrightarrow>
     length (recvmsg_rets w') \<le> length (recvmsg_rets w) \<and>
     (mtu ctl' \<noteq> mtu ctl \<longrightarrow> length (recvmsg_rets w') < length (recvmsg_rets w))"
proof (induction ctl t i w arbitrary: r out rule: probe_loop_cases)
  case (exhausted ctl the_ttl i w)
  then show ?case by (auto simp: probe_loop_exhausted)
next
  case (overrun ctl the_ttl i w)
  then show ?case by (auto simp: probe_loop_overrun)
next
  case (overread ctl the_ttl i w t ok w1)
  from overread(6) gettimeofday_sendto_queue [OF overread(3)] show ?case
    by (auto simp: probe_loop_overread [OF overread(1-5)] record_probe_def)
next
  case (sent ctl the_ttl i w t ok w1)
  from sent(6) obtain o' where
    "probe_wait ((record_probe ctl the_ttl t)
        \<lparr>hisptr := (hisptr (record_probe ctl the_ttl t) + 1) AND 63\<rparr>) the_ttl w1 = (r, ctl', w', o')"
    by (auto simp: probe_loop_sent [OF sent(1-5)] emit_eq)
  from probe_wait_queue [OF this] gettimeofday_sendto_queue [OF sent(3)]
  show ?case by (simp add: record_probe_def)
next
  case (failed ctl the_ttl i w t ok w1 res ctl2 q' out0)
  note q1 = gettimeofday_sendto_queue [OF failed(3)]
  note le = recverr_queue_le [OF failed(5)]
  note less = recverr_queue_mtu [OF failed(5)]
  show ?case
  proof (cases "res = 0")
    case True
    with failed(7) q1 le less show ?thesis
      by (auto simp: probe_loop_failed [OF failed(1-5)] record_probe_def clear_probe_def)
  next
    case False
    with failed(7) obtain o' where
      "probe_loop (clear_probe ctl2) the_ttl (if res > 0 then 0 else i + 1) (w1\<lparr>recvmsg_rets := q'\<rparr>)
         = (r, ctl', w', o')"
      by (auto simp: probe_loop_failed [OF failed(1-5)] emit_eq)
    from failed(6) [OF False this] q1 le less show ?thesis
      by (auto simp: record_probe_def clear_probe_def)
  qed
qed

text \<open>The ways through \<^verbatim>\<open>probe_ttl\<close>.\<close>

lemma probe_ttl_overrun:
  "int (pktbuf ctl) < size_t (mtu ctl) \<Longrightarrow> probe_ttl ctl t w = (Overrun, ctl, w, [])"
  by (simp add: probe_ttl_def)

lemma probe_ttl_cases:
  assumes "probe_ttl ctl t w = (r, ctl', w', out)"
  obtains (memset) "int (pktbuf ctl) < size_t (mtu ctl)" "r = Overrun" "ctl' = ctl" "w' = w" "out = []"
    | (loop) "\<not> int (pktbuf ctl) < size_t (mtu ctl)" "probe_loop ctl t 0 w = (r, ctl', w', out)"
  using assms by (auto simp: probe_ttl_def split: if_splits)

lemma probe_ttl_queue:
  "probe_ttl ctl t w = (r, ctl', w', out) \<Longrightarrow>
     length (recvmsg_rets w') \<le> length (recvmsg_rets w) \<and>
     (mtu ctl' \<noteq> mtu ctl \<longrightarrow> length (recvmsg_rets w') < length (recvmsg_rets w))"
  by (erule probe_ttl_cases) (auto dest: probe_loop_queue)

section \<open>The TTL escalation loop of main (lines 590-639)\<close>

text \<open>
  Lines 611-623: the loop \<^verbatim>\<open>for (i = 0; i < 3; i++)\<close> with its label \<^verbatim>\<open>restart\<close>.
  The argument \<open>res\<close> is the value of the variable \<^verbatim>\<open>res\<close> so far, read after the
  loop at line 625.  \<open>Goto_done\<close> is \<^verbatim>\<open>goto done\<close>; \<open>Left_loop res\<close> leaves the loop,
  by \<^verbatim>\<open>break\<close> or with \<open>i = 3\<close>; \<open>Overran\<close> is a call of \<^verbatim>\<open>probe_ttl\<close> that
  wrote past the packet buffer.
\<close>

datatype stage = Goto_done | Left_loop int | Overran

function attempts ::
  "run_state \<Rightarrow> int \<Rightarrow> nat \<Rightarrow> int \<Rightarrow> world \<Rightarrow> stage \<times> run_state \<times> world \<times> event list" where
  "attempts ctl the_ttl i res w =
     (if i < 3
      then (case probe_ttl ctl the_ttl w of
              (Overrun, ctl', w', out) \<Rightarrow> (Overran, ctl', w', out)
            | (Res res', ctl', w', out) \<Rightarrow>
                if mtu ctl' \<noteq> mtu ctl then emit out (attempts ctl' the_ttl 0 res' w')
                else if res' = 0 then (Goto_done, ctl', w', out)
                else if res' > 0 then (Left_loop res', ctl', w', out)
                else emit out (attempts ctl' the_ttl (i + 1) res' w'))
      else (Left_loop res, ctl, w, []))"
  by pat_completeness auto
termination
  apply (relation "measures [\<lambda>(ctl, t, i, r, w). length (recvmsg_rets w), \<lambda>(ctl, t, i, r, w). 3 - i]")
    apply simp
   apply (auto dest!: sym [of "(_, _)" "probe_ttl _ _ _"] dest: probe_ttl_queue)
  done


declare attempts.simps [simp del]

text \<open>The fields that neither the decoder nor the probe engine writes.\<close>

definition same_cfg :: "run_state \<Rightarrow> run_state \<Rightarrow> bool" where
  "same_cfg c c' \<longleftrightarrow>
     max_hops c' = max_hops c \<and> overhead c' = overhead c \<and> base_port c' = base_port c \<and>
     pktbuf c' = pktbuf c \<and> length (his c') = length (his c)"

lemma same_cfg_refl [simp]: "same_cfg c c"
  by (simp add: same_cfg_def)

lemma same_cfg_trans: "same_cfg a b \<Longrightarrow> same_cfg b c \<Longrightarrow> same_cfg a c"
  by (simp add: same_cfg_def)

lemma recverr_msg_cfg: "recverr_msg ctl t m = (fl, ctl', out) \<Longrightarrow> same_cfg ctl ctl'"
  by (auto simp: recverr_msg_def take_his_def classify_def same_cfg_def Let_def
      split: prod.splits option.splits errno.splits if_splits)

lemma recverr_loop_cfg:
  "recverr_loop p ctl t q = (r, ctl', q', out) \<Longrightarrow> same_cfg ctl ctl'"
proof (induction p ctl t q arbitrary: r ctl' q' out rule: recverr_loop.induct)
  case (4 progress ctl the_ttl m q)
  then show ?case
    by (fastforce split: prod.splits flow.splits dest: recverr_msg_cfg intro: same_cfg_trans)
qed auto


lemma recverr_cfg: "recverr ctl t q = (r, ctl', q', out) \<Longrightarrow> same_cfg ctl ctl'"
  unfolding recverr_def by (rule recverr_loop_cfg)

lemma record_probe_cfg [simp]: "same_cfg ctl (record_probe ctl t tm)"
  by (simp add: same_cfg_def record_probe_def)

lemma clear_probe_cfg [simp]: "same_cfg ctl (clear_probe ctl)"
  by (simp add: same_cfg_def clear_probe_def)

lemma hisptr_cfg [simp]: "same_cfg ctl (ctl\<lparr>hisptr := h\<rparr>)"
  by (simp add: same_cfg_def)

lemma probe_wait_cfg: "probe_wait ctl t w = (r, ctl', w', out) \<Longrightarrow> same_cfg ctl ctl'"
  by (erule probe_wait_cases) (auto dest: recverr_cfg)

lemma probe_loop_cfg:
  "probe_loop ctl t i w = (r, ctl', w', out) \<Longrightarrow> same_cfg ctl ctl'"
proof (induction ctl t i w arbitrary: r out rule: probe_loop_cases)
  case (exhausted ctl the_ttl i w)
  then show ?case by (auto simp: probe_loop_exhausted)
next
  case (overrun ctl the_ttl i w)
  then show ?case by (auto simp: probe_loop_overrun)
next
  case (overread ctl the_ttl i w t ok w1)
  from overread(6) show ?case
    by (auto simp: probe_loop_overread [OF overread(1-5)])
next
  case (sent ctl the_ttl i w t ok w1)
  from sent(6) show ?case
    by (simp add: probe_loop_sent [OF sent(1-5)] emit_eq)
      (blast intro: same_cfg_trans record_probe_cfg hisptr_cfg dest: probe_wait_cfg)
next
  case (failed ctl the_ttl i w t ok w1 res ctl2 q' out0)
  have a: "same_cfg ctl (clear_probe ctl2)"
    by (blast intro: same_cfg_trans record_probe_cfg clear_probe_cfg recverr_cfg [OF failed(5)])
  show ?case
  proof (cases "res = 0")
    case True
    with failed(7) a show ?thesis
      by (simp add: probe_loop_failed [OF failed(1-5)])
  next
    case False
    with failed(7) obtain o' where
      "probe_loop (clear_probe ctl2) the_ttl (if res > 0 then 0 else i + 1) (w1\<lparr>recvmsg_rets := q'\<rparr>)
         = (r, ctl', w', o')"
      by (auto simp: probe_loop_failed [OF failed(1-5)] emit_eq)
    from failed(6) [OF False this] a show ?thesis by (rule same_cfg_trans [rotated])
  qed
qed


lemma probe_ttl_cfg: "probe_ttl ctl t w = (r, ctl', w', out) \<Longrightarrow> same_cfg ctl ctl'"
  by (erule probe_ttl_cases) (auto dest: probe_loop_cfg)

text \<open>The ways through one attempt, and induction along them.\<close>

lemma attempts_left: "\<not> i < 3 \<Longrightarrow> attempts ctl the_ttl i res w = (Left_loop res, ctl, w, [])"
  by (simp add: attempts.simps [of ctl the_ttl i res w])

lemma attempts_overrun:
  "i < 3 \<Longrightarrow> probe_ttl ctl the_ttl w = (Overrun, ctl', w', out) \<Longrightarrow>
   attempts ctl the_ttl i res w = (Overran, ctl', w', out)"
  by (simp add: attempts.simps [of ctl the_ttl i res w])

lemma attempts_step:
  "i < 3 \<Longrightarrow> probe_ttl ctl the_ttl w = (Res res', ctl', w', out) \<Longrightarrow>
   attempts ctl the_ttl i res w =
     (if mtu ctl' \<noteq> mtu ctl then emit out (attempts ctl' the_ttl 0 res' w')
      else if res' = 0 then (Goto_done, ctl', w', out)
      else if res' > 0 then (Left_loop res', ctl', w', out)
      else emit out (attempts ctl' the_ttl (i + 1) res' w'))"
  by (simp add: attempts.simps [of ctl the_ttl i res w])

lemma attempts_cases [case_names left overrun step]:
  assumes "\<And>ctl the_ttl i res w. \<not> i < 3 \<Longrightarrow> P ctl the_ttl i res w"
    and "\<And>ctl the_ttl i res w ctl' w' out.
           i < 3 \<Longrightarrow> probe_ttl ctl the_ttl w = (Overrun, ctl', w', out) \<Longrightarrow> P ctl the_ttl i res w"
    and "\<And>ctl the_ttl i res w res' ctl' w' out.
           i < 3 \<Longrightarrow> probe_ttl ctl the_ttl w = (Res res', ctl', w', out) \<Longrightarrow>
           (mtu ctl' \<noteq> mtu ctl \<Longrightarrow> P ctl' the_ttl 0 res' w') \<Longrightarrow>
           (mtu ctl' = mtu ctl \<Longrightarrow> res' < 0 \<Longrightarrow> P ctl' the_ttl (i + 1) res' w') \<Longrightarrow>
           P ctl the_ttl i res w"
  shows "P (ctl :: run_state) (the_ttl :: int) (i :: nat) (res :: int) (w :: world)"
proof (induction ctl the_ttl i res w rule: attempts.induct)
  case (1 ctl the_ttl i res w)
  show ?case
  proof (cases "i < 3")
    case False
    then show ?thesis by (rule assms(1))
  next
    case True
    obtain rr c1 w1 o1 where p: "probe_ttl ctl the_ttl w = (rr, c1, w1, o1)"
      by (metis prod_cases4)
    show ?thesis
    proof (cases rr)
      case Overrun
      with True p show ?thesis by (auto intro: assms(2))
    next
      case (Res r1)
      note p' = p [unfolded Res]
      from True p' show ?thesis
      proof (rule assms(3))
        assume "mtu c1 \<noteq> mtu ctl"
        with "1.IH"(1) [OF True p' [symmetric] refl refl] show "P c1 the_ttl 0 r1 w1" by simp
      next
        assume "mtu c1 = mtu ctl" "r1 < 0"
        with "1.IH"(2) [OF True p' [symmetric] refl refl] show "P c1 the_ttl (i + 1) r1 w1" by simp
      qed
    qed
  qed
qed

lemma attempts_cfg:
  "attempts ctl t i res w = (st, ctl', w', out) \<Longrightarrow> same_cfg ctl ctl'"
proof (induction ctl t i res w arbitrary: st out rule: attempts_cases)
  case (left ctl the_ttl i res w)
  then show ?case by (simp add: attempts_left)
next
  case (overrun ctl the_ttl i res w c1 w1 o1)
  from overrun(3) probe_ttl_cfg [OF overrun(2)] show ?case
    by (simp add: attempts_overrun [OF overrun(1,2)])
next
  case (step ctl the_ttl i res w r1 c1 w1 o1)
  note c = probe_ttl_cfg [OF step(2)]
  from step(5) step(3,4) c show ?case
    by (auto simp: attempts_step [OF step(1,2)] emit_eq split: if_splits intro: same_cfg_trans)
qed

text \<open>Lines 594-609: the outgoing hop limit, for both families when the target is mapped.\<close>

definition setsockopt :: "world \<Rightarrow> int \<times> world" where
  "setsockopt w =
     (case setsockopt_rets w of
        [] \<Rightarrow> (0, w)
      | b # rest \<Rightarrow> (if b then 0 else -1, w\<lparr>setsockopt_rets := rest\<rparr>))"

definition set_hoplimit_v4 :: "world \<Rightarrow> string option \<times> world" where
  "set_hoplimit_v4 w =
     (case setsockopt w of (r, w1) \<Rightarrow> (if r \<noteq> 0 then Some ''IP_TTL'' else None, w1))"

definition set_hoplimit :: "run_state \<Rightarrow> family \<Rightarrow> world \<Rightarrow> string option \<times> world" where
  "set_hoplimit ctl fam w =
     (case fam of
        AF_INET6 \<Rightarrow>
          (case setsockopt w of
             (r, w1) \<Rightarrow>
               if r \<noteq> 0 then (Some ''IPV6_UNICAST_HOPS'', w1)
               else if \<not> mapped ctl then (None, w1)
               else set_hoplimit_v4 w1)
      | AF_INET \<Rightarrow> set_hoplimit_v4 w)"

text \<open>
  How a run ends: with \<^verbatim>\<open>exit(n)\<close>, or in the undefined behaviour of a write past the
  packet buffer.
\<close>

datatype status = Exit int | Undefined_behaviour

text \<open>Lines 630-639: the label \<^verbatim>\<open>done\<close>, the summary and \<^verbatim>\<open>exit(0)\<close>.\<close>

definition at_done :: "run_state \<Rightarrow> world \<Rightarrow> status \<times> run_state \<times> world \<times> event list" where
  "at_done ctl w =
     (Exit 0, ctl, w,
      [Out_resume (mtu ctl)
         (if hops_to ctl \<ge> 0 then Some (hops_to ctl) else None)
         (if hops_from ctl \<ge> 0 then Some (hops_from ctl) else None)])"

text \<open>
  Lines 590-628: the loop over the TTL.  The result is the exit status, the final state,
  the rest of the environment and the events.  The increment of \<open>the_ttl\<close> is not
  wrapped: it stays below \<open>max_hops + 1\<close>.
\<close>

function ttl_loop ::
  "run_state \<Rightarrow> family \<Rightarrow> int \<Rightarrow> world \<Rightarrow> status \<times> run_state \<times> world \<times> event list" where
  "ttl_loop ctl fam the_ttl w =
     (if the_ttl \<le> max_hops ctl
      then (case set_hoplimit ctl fam w of
              (Some err, w1) \<Rightarrow> (Exit 1, ctl, w1, [Out_perror err])
            | (None, w1) \<Rightarrow>
                (case attempts ctl the_ttl 0 0 w1 of
                   (Goto_done, ctl', w', out) \<Rightarrow> emit out (at_done ctl' w')
                 | (Left_loop res, ctl', w', out) \<Rightarrow>
                     emit (out @ (if res < 0 then [Out_no_reply the_ttl] else []))
                       (ttl_loop ctl' fam (the_ttl + 1) w')
                 | (Overran, ctl', w', out) \<Rightarrow> (Undefined_behaviour, ctl', w', out)))
      else emit [Out_too_many_hops (mtu ctl)] (at_done ctl w))"
  by pat_completeness auto
termination
  apply (relation "measure (\<lambda>(ctl, fam, t, w). nat (max_hops ctl + 1 - t))")
   apply simp
  apply (auto dest!: sym [of "(_, _)" "attempts _ _ _ _ _"] dest!: attempts_cfg simp: same_cfg_def)
  done

declare ttl_loop.simps [simp del]


section \<open>main from the family switch on (lines 529-645)\<close>

text \<open>
  Lines 529-582.  The argument \<open>ctl\<close> is the state after the options are parsed
  (\<open>mtu\<close> is \<open>0\<close> without \<^verbatim>\<open>-l\<close>), \<open>fam\<close> is \<^verbatim>\<open>ai->ai_family\<close> and \<open>v4mapped\<close> says
  whether the target is an IPv4-mapped IPv6 address.  \<open>Inl\<close> carries the message of a
  path that ends in \<^verbatim>\<open>exit(1)\<close>.
\<close>

definition main_setup_v4 :: "run_state \<Rightarrow> world \<Rightarrow> (event + run_state) \<times> world" where
  "main_setup_v4 ctl w =
     (let ctl1 = ctl\<lparr>overhead := 28\<rparr>;
          ctl2 = (if mtu ctl1 = 0 then ctl1\<lparr>mtu := 65535\<rparr> else ctl1)
      in if mtu ctl2 \<le> overhead ctl2 then (Inl (Out_pktlen_error (overhead ctl2)), w)
         else (case setsockopt w of
                 (r1, w1) \<Rightarrow>
                   if r1 \<noteq> 0 then (Inl (Out_perror ''IP_MTU_DISCOVER''), w1)
                   else (case setsockopt w1 of
                           (r2, w2) \<Rightarrow>
                             if r2 \<noteq> 0 then (Inl (Out_perror ''IP_RECVERR''), w2)
                             else (case setsockopt w2 of
                                     (r3, w3) \<Rightarrow>
                                       if r3 \<noteq> 0 then (Inl (Out_perror ''IP_RECVTTL''), w3)
                                       else (Inr ctl2, w3)))))"

definition setsockopt_twice :: "world \<Rightarrow> bool \<times> world" where
  "setsockopt_twice w =
     (case setsockopt w of
        (r1, w1) \<Rightarrow>
          if r1 \<noteq> 0 then (case setsockopt w1 of (r2, w2) \<Rightarrow> (r2 \<noteq> 0, w2))
          else (False, w1))"

definition main_setup ::
  "run_state \<Rightarrow> family \<Rightarrow> bool \<Rightarrow> world \<Rightarrow> (event + run_state) \<times> world" where
  "main_setup ctl fam v4mapped w =
     (case fam of
        AF_INET6 \<Rightarrow>
          (let ctl1 = ctl\<lparr>overhead := 48\<rparr>;
               ctl2 = (if mtu ctl1 = 0 then ctl1\<lparr>mtu := 128000\<rparr> else ctl1)
           in if mtu ctl2 \<le> overhead ctl2 then (Inl (Out_pktlen_error (overhead ctl2)), w)
              else (case setsockopt_twice w of
                      (f1, w1) \<Rightarrow>
                        if f1 then (Inl (Out_perror ''IPV6_MTU_DISCOVER''), w1)
                        else (case setsockopt w1 of
                                (r2, w2) \<Rightarrow>
                                  if r2 \<noteq> 0 then (Inl (Out_perror ''IPV6_RECVERR''), w2)
                                  else (case setsockopt_twice w2 of
                                          (f3, w3) \<Rightarrow>
                                            if f3 then (Inl (Out_perror ''IPV6_HOPLIMIT''), w3)
                                            else if \<not> v4mapped then (Inr ctl2, w3)
                                            else main_setup_v4 (ctl2\<lparr>mapped := True\<rparr>) w3))))
      | AF_INET \<Rightarrow> main_setup_v4 ctl w)"

text \<open>
  Lines 584-590: the allocation of the packet buffer, \<^verbatim>\<open>malloc(ctl.mtu)\<close> with the MTU
  estimate the setup leaves, then the loop from TTL 1.  The buffer is never allocated
  again.
\<close>

definition tracepath_main ::
  "run_state \<Rightarrow> family \<Rightarrow> bool \<Rightarrow> world \<Rightarrow> status \<times> run_state \<times> world \<times> event list" where
  "tracepath_main ctl fam v4mapped w =
     (case main_setup ctl fam v4mapped w of
        (Inl err, w1) \<Rightarrow> (Exit 1, ctl, w1, [err])
      | (Inr ctl1, w1) \<Rightarrow>
          if \<not> malloc_ok w1 then (Exit 1, ctl1, w1, [Out_perror ''malloc''])
          else ttl_loop (ctl1\<lparr>pktbuf := nat (size_t (mtu ctl1))\<rparr>) fam 1 w1)"


section \<open>Notions used to state the properties\<close>

text \<open>
  The MTU a notification carries: the \<open>ee_info\<close> of its error record when the record
  says \<open>EMSGSIZE\<close>, as the switch of \<^verbatim>\<open>recverr\<close> reads it (line 291).
\<close>

definition notified_mtu :: "errmsg \<Rightarrow> int option" where
  "notified_mtu m =
     (case scan_cmsgs (cmsgs m) None (-1) of
        (Some e, _, _) \<Rightarrow> if ee_errno e = EMSGSIZE then Some (sint (ee_info e)) else None
      | (None, _, _) \<Rightarrow> None)"

text \<open>
  The slot as the specification words it: the received port minus the base port,
  reduced modulo 64.  To be compared with \<open>slot_of\<close>, which embeds the source.
\<close>

definition spec_slot :: "run_state \<Rightarrow> errmsg \<Rightarrow> int" where
  "spec_slot ctl m = (uint (port m) - uint (base_port ctl)) mod 64"

text \<open>
  The stages of \<^verbatim>\<open>recverr\<close> on one message, named: the received hop limit that the
  loop over the ancillary messages leaves in \<open>rethops\<close> (the last one wins, none leaves
  \<open>-1\<close>), the error record, the receive-side hop count after lines 278-283, the result
  of the history lookup, and the send-side hop count after lines 177-189.
\<close>

fun recv_hoplimit :: "cmsghdr list \<Rightarrow> int option" where
  "recv_hoplimit [] = None"
| "recv_hoplimit (c # cs) =
     (case recv_hoplimit cs of
        Some h \<Rightarrow> Some h
      | None \<Rightarrow>
          (case c of
             Cmsg_IPV6_HOPLIMIT h \<Rightarrow> Some (sint h)
           | Cmsg_IP_TTL b \<Rightarrow> Some (uint b)
           | _ \<Rightarrow> None))"

definition errrec_of :: "errmsg \<Rightarrow> sock_extended_err option" where
  "errrec_of m = fst (scan_cmsgs (cmsgs m) None (-1))"

definition rethops_of :: "errmsg \<Rightarrow> int" where
  "rethops_of m = norm_rethops (fst (snd (scan_cmsgs (cmsgs m) None (-1))))"

definition his_of :: "run_state \<Rightarrow> errmsg \<Rightarrow> int \<times> timeval option" where
  "his_of ctl m =
     (fst (take_his ctl (slot_of ctl m)), fst (snd (take_his ctl (slot_of ctl m))))"

definition sndhops_of :: "run_state \<Rightarrow> errmsg \<Rightarrow> int" where
  "sndhops_of ctl m = fst (use_payload m (his_of ctl m))"

text \<open>
  Reading a trace of events.  The MTU estimate changes only at line 291, which is also
  where \<^verbatim>\<open>pmtu\<close> is printed: \<open>cur_mtu L out\<close> is the estimate after the events
  \<open>out\<close> when it was \<open>L\<close> before them.  \<open>lengths_ok L ovh out\<close> says that every
  \<^verbatim>\<open>sendto\<close> among the events, made while the estimate exceeds the overhead \<open>ovh\<close>,
  asks for exactly the estimate at that moment minus the overhead.
\<close>

fun cur_mtu :: "int \<Rightarrow> event list \<Rightarrow> int" where
  "cur_mtu L [] = L"
| "cur_mtu L (Out_pmtu v # es) = cur_mtu v es"
| "cur_mtu L (e # es) = cur_mtu L es"

fun lengths_ok :: "int \<Rightarrow> int \<Rightarrow> event list \<Rightarrow> bool" where
  "lengths_ok L ovh [] = True"
| "lengths_ok L ovh (Out_pmtu v # es) = lengths_ok v ovh es"
| "lengths_ok L ovh (Sendto len p h # es) = ((ovh < L \<longrightarrow> len = L - ovh) \<and> lengths_ok L ovh es)"
| "lengths_ok L ovh (e # es) = lengths_ok L ovh es"

text \<open>The range of a C \<^verbatim>\<open>int\<close>.\<close>

definition is_int :: "int \<Rightarrow> bool" where
  "is_int x \<longleftrightarrow> - 2147483648 \<le> x \<and> x < 2147483648"

text \<open>
  \<open>tracks c out c'\<close>: the events \<open>out\<close>, produced from state \<open>c\<close> to state \<open>c'\<close>,
  respect the length rule and account for the change of the estimate; \<open>plain\<close> events
  neither send nor change the estimate.
\<close>

definition tracks :: "run_state \<Rightarrow> event list \<Rightarrow> run_state \<Rightarrow> bool" where
  "tracks c out c' \<longleftrightarrow>
     (is_int (mtu c) \<and> 0 \<le> overhead c \<longrightarrow>
        lengths_ok (mtu c) (overhead c) out \<and> is_int (mtu c')) \<and>
     cur_mtu (mtu c) out = mtu c' \<and> overhead c' = overhead c"

fun is_plain :: "event \<Rightarrow> bool" where
  "is_plain (Out_pmtu v) = False"
| "is_plain (Sendto len p h) = False"
| "is_plain e = True"

definition plain :: "event list \<Rightarrow> bool" where
  "plain out \<longleftrightarrow> list_all is_plain out"

text \<open>
  Two more readings of a trace: no \<^verbatim>\<open>pmtu\<close> line is printed, so the MTU estimate never
  changes; and the event \<open>ev\<close> occurs exactly once, as the last event.  The lines
  \<^verbatim>\<open>reached\<close> and \<^verbatim>\<open>!H\<close> are the two events this is used for.
\<close>

definition no_pmtu :: "event list \<Rightarrow> bool" where
  "no_pmtu out \<longleftrightarrow> (\<forall>v. Out_pmtu v \<notin> set out)"

definition ends_with :: "event \<Rightarrow> event list \<Rightarrow> bool" where
  "ends_with ev out \<longleftrightarrow> (\<exists>pre. out = pre @ [ev] \<and> ev \<notin> set pre)"

definition final_event :: "event \<Rightarrow> bool" where
  "final_event ev \<longleftrightarrow> ev = Out_reached \<or> ev = Out_bang_H"

text \<open>
  The hop limit of a received packet is one byte.  IPv4 hands it over as a byte, IPv6 as
  an \<^verbatim>\<open>int\<close> that holds the byte: \<open>hoplimit_in_range m\<close> says that the hop limit of
  the notification \<open>m\<close>, when it has one, is from 0 to 255.
\<close>

definition hoplimit_in_range :: "errmsg \<Rightarrow> bool" where
  "hoplimit_in_range m \<longleftrightarrow>
     (case recv_hoplimit (cmsgs m) of None \<Rightarrow> True | Some h \<Rightarrow> 0 \<le> h \<and> h \<le> 255)"

section \<open>Example sessions\<close>

text \<open>
  The state after option parsing without options, and the same state after the IPv4
  setup with a packet length of 1500 and the allocation of the packet buffer.
\<close>

definition tv0 :: timeval where
  "tv0 = \<lparr>tv_sec = 0, tv_usec = 0\<rparr>"

definition ctl_parsed :: run_state where
  "ctl_parsed =
     \<lparr>his = replicate 64 \<lparr>hops = 0, sendtime = tv0\<rparr>, hisptr = 0, base_port = 44444,
      max_hops = 30, overhead = 0, mtu = 0, pktbuf = 0, hops_to = -1, hops_from = -1,
      no_resolve = False, show_both = False, mapped = False\<rparr>"

definition ctl_v4 :: run_state where
  "ctl_v4 = ctl_parsed\<lparr>overhead := 28, mtu := 1500, pktbuf := 1500\<rparr>"

text \<open>
  An ICMP notification without echoed payload, received at time 100.005 s: its error
  code, ICMP type and code, \<open>ee_info\<close>, the port of the probe it answers, and the
  ancillary messages that follow the error record.
\<close>

definition icmp_msg ::
  "errno \<Rightarrow> 8 word \<Rightarrow> 8 word \<Rightarrow> 32 word \<Rightarrow> 16 word \<Rightarrow> cmsghdr list \<Rightarrow> errmsg" where
  "icmp_msg en ty co info p anc =
     \<lparr>now = \<lparr>tv_sec = 100, tv_usec = 5000\<rparr>, recv_size = 0,
       rcvbuf = \<lparr>ttl = -1, tv = \<lparr>tv_sec = -1, tv_usec = -1\<rparr>\<rparr>, port = p,
       cmsgs = Cmsg_IP_RECVERR \<lparr>ee_errno = en, ee_origin = SO_EE_ORIGIN_ICMP, ee_type = ty,
                 ee_code = co, ee_info = info\<rparr> # anc\<rparr>"

definition notification ::
  "errno \<Rightarrow> 8 word \<Rightarrow> 8 word \<Rightarrow> 32 word \<Rightarrow> 16 word \<Rightarrow> cmsghdr list \<Rightarrow> recvmsg_ret" where
  "notification en ty co info p anc = Recvmsg_ok (icmp_msg en ty co info p anc)"

text \<open>A session whose slot 0 holds a live record for TTL 1, sent at time 99 s.\<close>

definition ctl_live0 :: run_state where
  "ctl_live0 = ctl_v4\<lparr>his := (his ctl_v4)[0 := \<lparr>hops = 1, sendtime = \<lparr>tv_sec = 99, tv_usec = 0\<rparr>\<rparr>]\<rparr>"

text \<open>A message whose port is the base port plus 64.\<close>

definition msg_plus64 :: errmsg where
  "msg_plus64 = \<lparr>now = \<lparr>tv_sec = 100, tv_usec = 0\<rparr>, recv_size = 0,
     rcvbuf = \<lparr>ttl = -1, tv = \<lparr>tv_sec = -1, tv_usec = -1\<rparr>\<rparr>, port = 44508, cmsgs = []\<rparr>"

text \<open>The time \<open>sec\<close> seconds.\<close>

definition tv_at :: "int \<Rightarrow> timeval" where
  "tv_at sec = \<lparr>tv_sec = sec, tv_usec = 0\<rparr>"



definition w_unreach_after_pmtu :: world where
  "w_unreach_after_pmtu =
     \<lparr>sendto_rets = [(tv_at 100, True), (tv_at 100, True), (tv_at 100, True), (tv_at 100, True)],
      recvmsg_rets = [notification EMSGSIZE 3 4 1400 44444 [Cmsg_IP_TTL 64],
                      notification EHOSTUNREACH 3 1 0 44444 [Cmsg_IP_TTL 64]],
      recv_rets = [], setsockopt_rets = [], malloc_ok = True\<rparr>"

definition w_unreach :: world where
  "w_unreach =
     \<lparr>sendto_rets = [(tv_at 100, True)],
      recvmsg_rets = [notification EHOSTUNREACH 3 1 0 44444 [Cmsg_IP_TTL 64]],
      recv_rets = [], setsockopt_rets = [], malloc_ok = True\<rparr>"

text \<open>
  Two more environments for TTL 1.  In the first, the probe draws a message-too-big
  notification (ICMP type 3, code 4) that carries 9000.  In the second, the first
  \<^verbatim>\<open>sendto\<close> is refused while the error queue holds two message-too-big notifications,
  carrying 1400 and then 1500, and the second \<^verbatim>\<open>sendto\<close> is accepted.
\<close>

definition w_pmtu_grows :: world where
  "w_pmtu_grows =
     \<lparr>sendto_rets = [(tv_at 100, True)],
      recvmsg_rets = [notification EMSGSIZE 3 4 9000 44444 [Cmsg_IP_TTL 64]],
      recv_rets = [], setsockopt_rets = [], malloc_ok = True\<rparr>"

text \<open>
  An environment that accepts one send and answers nothing, and one in which the probe
  draws a time-exceeded notification.
\<close>

definition w_one_send :: world where
  "w_one_send =
     \<lparr>sendto_rets = [(tv_at 100, True)], recvmsg_rets = [],
      recv_rets = [], setsockopt_rets = [], malloc_ok = True\<rparr>"

definition w_hop :: world where
  "w_hop =
     \<lparr>sendto_rets = [(tv_at 100, True)],
      recvmsg_rets = [notification EHOSTUNREACH 11 0 0 44444 [Cmsg_IP_TTL 64]],
      recv_rets = [], setsockopt_rets = [], malloc_ok = True\<rparr>"

definition w_pmtu_back :: world where
  "w_pmtu_back =
     \<lparr>sendto_rets = [(tv_at 100, False), (tv_at 101, True)],
      recvmsg_rets = [notification EMSGSIZE 3 4 1400 44444 [Cmsg_IP_TTL 64],
                      notification EMSGSIZE 3 4 1500 44444 [Cmsg_IP_TTL 64]],
      recv_rets = [], setsockopt_rets = [], malloc_ok = True\<rparr>"

lemmas run_defs = tracepath_main_def main_setup_def main_setup_v4_def setsockopt_def
  ttl_loop.simps set_hoplimit_def set_hoplimit_v4_def attempts.simps at_done_def

lemmas stage_defs = recverr_msg_def errrec_of_def sndhops_of_def his_of_def rethops_of_def

lemmas ex_defs = ctl_v4_def ctl_parsed_def tv0_def notification_def icmp_msg_def

lemmas dec_defs = recverr_def recverr_msg_def take_his_def slot_of_def use_payload_def
  sizeof_probehdr_def print_origin_def print_rtt_def norm_rethops_def classify_def canonical_def
  asymm_def int32_def c_div_def c_mod_def

text \<open>
  A time-exceeded notification (ICMP type 11, code 0, which the kernel reports as
  \<open>EHOSTUNREACH\<close>) from a router one hop away, which echoes a payload of the full
  header size with the given TTL field and seconds field, for the probe sent to the
  given port.
\<close>

definition echoed :: "32 word \<Rightarrow> int \<Rightarrow> 16 word \<Rightarrow> errmsg" where
  "echoed pttl psec p =
     \<lparr>now = \<lparr>tv_sec = 100, tv_usec = 5000\<rparr>, recv_size = 24,
      rcvbuf = \<lparr>ttl = pttl, tv = \<lparr>tv_sec = psec, tv_usec = 0\<rparr>\<rparr>, port = p,
      cmsgs = [Cmsg_IP_RECVERR \<lparr>ee_errno = EHOSTUNREACH, ee_origin = SO_EE_ORIGIN_ICMP,
                 ee_type = 11, ee_code = 0, ee_info = 0\<rparr>, Cmsg_IP_TTL 64]\<rparr>"


text \<open>An environment in which nothing is scripted.\<close>

definition w_quiet :: world where
  "w_quiet = \<lparr>sendto_rets = [], recvmsg_rets = [], recv_rets = [], setsockopt_rets = [],
     malloc_ok = True\<rparr>"

text \<open>
  An environment that accepts four sends and holds one message-too-big notification,
  carrying 1400, for the first probe.
\<close>

definition w_pmtu_once :: world where
  "w_pmtu_once =
     \<lparr>sendto_rets = [(\<lparr>tv_sec = 100, tv_usec = 0\<rparr>, True), (\<lparr>tv_sec = 101, tv_usec = 0\<rparr>, True),
                     (\<lparr>tv_sec = 102, tv_usec = 0\<rparr>, True), (\<lparr>tv_sec = 103, tv_usec = 0\<rparr>, True)],
      recvmsg_rets = [notification EMSGSIZE 3 4 1400 44444 [Cmsg_IP_TTL 64]],
      recv_rets = [], setsockopt_rets = [], malloc_ok = True\<rparr>"

lemmas probe_defs = probe_ttl_def probe_loop.simps gettimeofday_sendto_def record_probe_def
  clear_probe_def sendto_call_def sendto_ret_def size_t_def ssize_t_def probe_wait_def
  recv_dontwait_def emit_def



section \<open>Facts about C arithmetic\<close>

lemma int32_id: "- 2147483648 \<le> x \<Longrightarrow> x < 2147483648 \<Longrightarrow> int32 x = x"
  unfolding int32_def by (rule signed_take_bit_int_eq_self) simp_all

section \<open>Receive-side hop count\<close>

lemma scan_cmsgs_rethops:
  "scan_cmsgs cs e r = (e', r', out) \<Longrightarrow>
   r' = (case recv_hoplimit cs of Some h \<Rightarrow> h | None \<Rightarrow> r)"
proof (induction cs e r arbitrary: e' r' out rule: scan_cmsgs.induct)
  case (1 e rethops)
  then show ?case by simp
qed (auto split: prod.splits option.splits)

lemma rethops_of_eq:
  "rethops_of m = norm_rethops (case recv_hoplimit (cmsgs m) of Some h \<Rightarrow> h | None \<Rightarrow> -1)"
proof -
  obtain e r out where s: "scan_cmsgs (cmsgs m) None (-1) = (e, r, out)"
    by (metis prod_cases3)
  from scan_cmsgs_rethops [OF s] s show ?thesis by (simp add: rethops_of_def)
qed


lemma recv_hoplimit_range:
  "recv_hoplimit cs = Some h \<Longrightarrow> - 2147483648 \<le> h \<and> h < 2147483648"
proof (induction cs)
  case Nil
  then show ?case by simp
next
  case (Cons c cs)
  show ?case
  proof (cases "recv_hoplimit cs")
    case (Some a)
    with Cons show ?thesis by simp
  next
    case None
    show ?thesis
    proof (cases c)
      case (Cmsg_IPV6_HOPLIMIT x)
      with None Cons.prems sint_ge [of x] sint_lt [of x] show ?thesis by auto
    next
      case (Cmsg_IP_TTL b)
      from uint_bounded [of b] have "uint b < 256" by simp
      moreover have "- 2147483648 \<le> uint b"
        by (rule order_trans [of _ 0]) simp_all
      ultimately show ?thesis using Cmsg_IP_TTL None Cons.prems by auto
    qed (use None Cons.prems in auto)
  qed
qed

text \<open>
  Claim C5.  When the ancillary messages of a notification carry the received hop limit
  \<open>h\<close>, the receive-side hop count is \<open>65 - h\<close> for \<open>h \<le> 64\<close>, \<open>129 - h\<close> for
  \<open>64 < h \<le> 128\<close> and \<open>256 - h\<close> otherwise.  This holds for every \<open>h\<close> for which
  \<open>65 - h\<close> is a C \<^verbatim>\<open>int\<close>, so for every hop limit \<open>0..255\<close>.
\<close>

theorem rethops_normalisation:
  assumes "recv_hoplimit (cmsgs m) = Some h" and "- 2147483582 \<le> h"
  shows "rethops_of m = (if h \<le> 64 then 65 - h else if h \<le> 128 then 129 - h else 256 - h)"
  using assms recv_hoplimit_range [OF assms(1)]
  by (simp add: rethops_of_eq norm_rethops_def int32_id)

theorem rethops_normalisation_witness:
  "rethops_of (icmp_msg EHOSTUNREACH 11 0 0 44444 [Cmsg_IP_TTL 64]) = 1 \<and>
   rethops_of (icmp_msg EHOSTUNREACH 11 0 0 44444 [Cmsg_IP_TTL 128]) = 1 \<and>
   rethops_of (icmp_msg EHOSTUNREACH 11 0 0 44444 [Cmsg_IPV6_HOPLIMIT 255]) = 1"
  using rethops_normalisation [of "icmp_msg EHOSTUNREACH 11 0 0 44444 [Cmsg_IP_TTL 64]" 64]
    rethops_normalisation [of "icmp_msg EHOSTUNREACH 11 0 0 44444 [Cmsg_IP_TTL 128]" 128]
    rethops_normalisation [of "icmp_msg EHOSTUNREACH 11 0 0 44444 [Cmsg_IPV6_HOPLIMIT 255]" 255]
  by (simp add: icmp_msg_def)

section \<open>The history slot\<close>

text \<open>
  Claim C2, as the code has it.  The slot is the received port minus the base port, not
  reduced modulo 64 (lines 167-175).  A slot below 0 or above 63, or an empty record,
  gives the unmatched result: \<open>sndhops\<close> stays \<open>-1\<close> and \<open>rettv\<close> stays \<^verbatim>\<open>NULL\<close>.
  Every slot from 0 to 62 with a live record is matched: it supplies the hop count and
  the send time, and the record is cleared.
\<close>

theorem slot_lookup:
  "slot_of ctl m = uint (port m) - uint (base_port ctl) \<and>
   (slot_of ctl m < 0 \<or> 64 \<le> slot_of ctl m \<or> hops (his ctl ! nat (slot_of ctl m)) = 0 \<longrightarrow>
      take_his ctl (slot_of ctl m) = (-1, None, ctl)) \<and>
   (0 \<le> slot_of ctl m \<and> slot_of ctl m \<le> 62 \<and> hops (his ctl ! nat (slot_of ctl m)) \<noteq> 0 \<longrightarrow>
      take_his ctl (slot_of ctl m) =
        (hops (his ctl ! nat (slot_of ctl m)),
         Some (sendtime (his ctl ! nat (slot_of ctl m))),
         ctl\<lparr>his := (his ctl)[nat (slot_of ctl m) :=
                       (his ctl ! nat (slot_of ctl m))\<lparr>hops := 0\<rparr>]\<rparr>))"
  by (auto simp: slot_of_def take_his_def)

text \<open>
  The port is the base port plus 64 and slot 0 holds a live record: modulo 64 the slot
  would be 0 and its record would match, but the code's slot is 64 and nothing matches.
\<close>

theorem slot_mod64_counterexample:
  "spec_slot ctl_live0 msg_plus64 = 0 \<and> hops (his ctl_live0 ! 0) \<noteq> 0 \<and>
   slot_of ctl_live0 msg_plus64 \<noteq> spec_slot ctl_live0 msg_plus64 \<and>
   take_his ctl_live0 (slot_of ctl_live0 msg_plus64) = (-1, None, ctl_live0)"
  by (simp add: spec_slot_def slot_of_def take_his_def ctl_live0_def msg_plus64_def ex_defs)

theorem slot_lookup_witness:
  "take_his ctl_live0 0 =
     (1, Some \<lparr>tv_sec = 99, tv_usec = 0\<rparr>,
      ctl_v4\<lparr>his := (his ctl_v4)[0 := \<lparr>hops = 0, sendtime = \<lparr>tv_sec = 99, tv_usec = 0\<rparr>\<rparr>]\<rparr>) \<and>
   take_his ctl_live0 64 = (-1, None, ctl_live0)"
  using slot_lookup [of ctl_live0 "msg_plus64\<lparr>port := 44444\<rparr>"]
    slot_lookup [of ctl_live0 msg_plus64]
  by (simp add: slot_of_def ctl_live0_def msg_plus64_def ex_defs)

text \<open>
  Line 177 compares the slot with 63, not 64: the record in slot 63, which
  \<^verbatim>\<open>probe_ttl\<close> writes like the others, is never matched.
\<close>

lemma last_slot_unmatched: "take_his ctl 63 = (-1, None, ctl)"
  by (simp add: take_his_def)

section \<open>The decoder, one notification at a time\<close>

text \<open>What \<^verbatim>\<open>recverr\<close> does with one message, from the results of its stages.\<close>

lemma recverr_msg_eq:
  assumes "take_his ctl (slot_of ctl m) = (s1, r1, ctl1)"
    and "use_payload m (s1, r1) = (s, rt, br)"
    and "scan_cmsgs (cmsgs m) None (-1) = (Some e, rh, o1)"
    and "classify ctl1 t e s (norm_rethops rh) (mtu ctl) = (fl, c2, o4)"
  shows "recverr_msg ctl t m = (fl, c2, o1 @ print_origin e s t @ print_rtt (now m) rt br @ o4)"
  using assms by (simp add: recverr_msg_def)

lemma recverr_msg_no_info:
  assumes "take_his ctl (slot_of ctl m) = (s1, r1, ctl1)"
    and "scan_cmsgs (cmsgs m) None (-1) = (None, rh, o1)"
  shows "recverr_msg ctl t m = (Return 0, ctl1, o1 @ [Out_no_info])"
  using assms by (simp add: recverr_msg_def split: prod.splits)

lemma scan_cmsgs_out: "scan_cmsgs cs e r = (e', r', out) \<Longrightarrow> Out_broken_router \<notin> set out"
  by (induction cs e r arbitrary: e' r' out rule: scan_cmsgs.induct) (auto split: prod.splits)

lemma print_origin_out: "Out_broken_router \<notin> set (print_origin e s t)"
  by (simp add: print_origin_def)

lemma classify_out: "classify c t e s rh p = (fl, c', out) \<Longrightarrow> Out_broken_router \<notin> set out"
  by (auto simp: classify_def asymm_def split: errno.splits if_splits)

lemma print_rtt_broken: "Out_broken_router \<in> set (print_rtt tm rt br) \<longleftrightarrow> br \<and> rt \<noteq> None"
  by (auto simp: print_rtt_def Let_def split: option.splits)

section \<open>Corrupted echoed payload\<close>

text \<open>
  Claim C4, as the code has it.  For a notification with an error record and an echoed
  payload of the full header size: when the TTL field or the seconds field of the payload
  is zero, the decoder sets the broken-router flag and goes on with what the history
  lookup gave, the matched record's hop count and send time or, when nothing matched,
  \<open>-1\<close> and no send time; the note on the corrupted payload is printed with the
  round-trip time, that is exactly when the history lookup matched.  When both fields
  are non-zero the payload's TTL and time replace the history values and no note is
  printed.
\<close>

theorem broken_router_payload:
  assumes "recv_size m = sizeof_probehdr"
    and "take_his ctl (slot_of ctl m) = (s1, r1, ctl1)"
    and "scan_cmsgs (cmsgs m) None (-1) = (Some e, rh, o1)"
    and "recverr_msg ctl t m = (fl, ctl2, out)"
  shows "(ttl (rcvbuf m) = 0 \<or> tv_sec (tv (rcvbuf m)) = 0 \<longrightarrow>
           use_payload m (s1, r1) = (s1, r1, True) \<and>
           (\<exists>o4. classify ctl1 t e s1 (norm_rethops rh) (mtu ctl) = (fl, ctl2, o4) \<and>
                 out = o1 @ print_origin e s1 t @ print_rtt (now m) r1 True @ o4) \<and>
           (Out_broken_router \<in> set out \<longleftrightarrow> r1 \<noteq> None)) \<and>
         (ttl (rcvbuf m) \<noteq> 0 \<and> tv_sec (tv (rcvbuf m)) \<noteq> 0 \<longrightarrow>
           use_payload m (s1, r1) = (sint (ttl (rcvbuf m)), Some (tv (rcvbuf m)), False) \<and>
           (\<exists>o4. classify ctl1 t e (sint (ttl (rcvbuf m))) (norm_rethops rh) (mtu ctl) = (fl, ctl2, o4) \<and>
                 out = o1 @ print_origin e (sint (ttl (rcvbuf m))) t
                         @ print_rtt (now m) (Some (tv (rcvbuf m))) False @ o4) \<and>
           Out_broken_router \<notin> set out)"
proof (intro conjI impI)
  assume br: "ttl (rcvbuf m) = 0 \<or> tv_sec (tv (rcvbuf m)) = 0"
  with assms(1) show up: "use_payload m (s1, r1) = (s1, r1, True)"
    by (auto simp: use_payload_def)
  obtain fl' c' o4 where cl: "classify ctl1 t e s1 (norm_rethops rh) (mtu ctl) = (fl', c', o4)"
    by (metis prod_cases3)
  from recverr_msg_eq [OF assms(2) up assms(3) cl] assms(4)
  have eq: "fl' = fl" "c' = ctl2" "out = o1 @ print_origin e s1 t @ print_rtt (now m) r1 True @ o4"
    by simp_all
  with cl show "\<exists>o4. classify ctl1 t e s1 (norm_rethops rh) (mtu ctl) = (fl, ctl2, o4) \<and>
                 out = o1 @ print_origin e s1 t @ print_rtt (now m) r1 True @ o4"
    by auto
  from eq(3) scan_cmsgs_out [OF assms(3)] classify_out [OF cl]
  show "Out_broken_router \<in> set out \<longleftrightarrow> r1 \<noteq> None"
    by (simp add: print_origin_out print_rtt_broken)
next
  assume ok: "ttl (rcvbuf m) \<noteq> 0 \<and> tv_sec (tv (rcvbuf m)) \<noteq> 0"
  let ?s = "sint (ttl (rcvbuf m))"
  from ok assms(1) show up: "use_payload m (s1, r1) = (?s, Some (tv (rcvbuf m)), False)"
    by (auto simp: use_payload_def)
  obtain fl' c' o4 where cl: "classify ctl1 t e ?s (norm_rethops rh) (mtu ctl) = (fl', c', o4)"
    by (metis prod_cases3)
  from recverr_msg_eq [OF assms(2) up assms(3) cl] assms(4)
  have eq: "fl' = fl" "c' = ctl2"
    "out = o1 @ print_origin e ?s t @ print_rtt (now m) (Some (tv (rcvbuf m))) False @ o4"
    by simp_all
  with cl show "\<exists>o4. classify ctl1 t e ?s (norm_rethops rh) (mtu ctl) = (fl, ctl2, o4) \<and>
                 out = o1 @ print_origin e ?s t @ print_rtt (now m) (Some (tv (rcvbuf m))) False @ o4"
    by auto
  from eq(3) scan_cmsgs_out [OF assms(3)] classify_out [OF cl]
  show "Out_broken_router \<notin> set out"
    by (simp add: print_origin_out print_rtt_broken)
qed

text \<open>
  A payload with a zero TTL field arrives for a port whose history slot is empty: the
  output has no note on the corrupted payload.
\<close>

theorem broken_router_counterexample:
  "recv_size (echoed 0 98 44444) = sizeof_probehdr \<and> ttl (rcvbuf (echoed 0 98 44444)) = 0 \<and>
   Out_broken_router \<notin> set (snd (snd (recverr_msg ctl_v4 1 (echoed 0 98 44444))))"
  by (simp add: echoed_def ex_defs dec_defs)

theorem broken_router_payload_witness:
  "snd (snd (recverr_msg ctl_live0 1 (echoed 0 98 44444))) =
     [Out_hop 1, Out_host, Out_rtt 1005 0, Out_broken_router, Out_newline] \<and>
   snd (snd (recverr_msg ctl_live0 1 (echoed 7 98 44444))) =
     [Out_hop 7, Out_host, Out_rtt 2005 0, Out_asymm 1, Out_newline]"
proof -
  let ?c1 = "ctl_v4\<lparr>his := (his ctl_v4)[0 := \<lparr>hops = 0, sendtime = \<lparr>tv_sec = 99, tv_usec = 0\<rparr>\<rparr>]\<rparr>"
  let ?e = "\<lparr>ee_errno = EHOSTUNREACH, ee_origin = SO_EE_ORIGIN_ICMP,
                 ee_type = 11, ee_code = 0, ee_info = 0\<rparr>"
  have th: "take_his ctl_live0 (slot_of ctl_live0 (echoed p s 44444)) =
      (1, Some \<lparr>tv_sec = 99, tv_usec = 0\<rparr>, ?c1)" for p s
    by (simp add: echoed_def ctl_live0_def ex_defs take_his_def slot_of_def)
  have sc: "scan_cmsgs (cmsgs (echoed p s 44444)) None (-1) = (Some ?e, 64, [])" for p s
    by (simp add: echoed_def)
  have sz: "recv_size (echoed p s 44444) = sizeof_probehdr" for p s
    by (simp add: echoed_def sizeof_probehdr_def)
  obtain fl c out where r0: "recverr_msg ctl_live0 1 (echoed 0 98 44444) = (fl, c, out)"
    by (metis prod_cases3)
  obtain fl' c' out' where r7: "recverr_msg ctl_live0 1 (echoed 7 98 44444) = (fl', c', out')"
    by (metis prod_cases3)
  from broken_router_payload [OF sz th sc r0]
  have "out = [Out_hop 1, Out_host, Out_rtt 1005 0, Out_broken_router, Out_newline]"
    by (auto simp: echoed_def classify_def canonical_def asymm_def norm_rethops_def
        print_origin_def print_rtt_def int32_def c_div_def c_mod_def)
  moreover from broken_router_payload [OF sz th sc r7]
  have "out' = [Out_hop 7, Out_host, Out_rtt 2005 0, Out_asymm 1, Out_newline]"
    by (auto simp: echoed_def classify_def canonical_def asymm_def norm_rethops_def
        print_origin_def print_rtt_def int32_def c_div_def c_mod_def)
  ultimately show ?thesis using r0 r7 by simp
qed

section \<open>The escalation loop\<close>

text \<open>The setup changes neither the hop bounds nor the resolved hop counts.\<close>

lemma main_setup_v4_keeps:
  "main_setup_v4 ctl w = (Inr ctl1, w1) \<Longrightarrow>
   max_hops ctl1 = max_hops ctl \<and> hops_to ctl1 = hops_to ctl \<and> hops_from ctl1 = hops_from ctl \<and>
   sendto_rets w1 = sendto_rets w \<and> recvmsg_rets w1 = recvmsg_rets w"
  by (auto simp: main_setup_v4_def setsockopt_def Let_def split: if_splits prod.splits list.splits)

lemma setsockopt_twice_keeps:
  "setsockopt_twice w = (f, w1) \<Longrightarrow>
   sendto_rets w1 = sendto_rets w \<and> recvmsg_rets w1 = recvmsg_rets w"
  by (auto simp: setsockopt_twice_def setsockopt_def split: if_splits prod.splits list.splits)

lemma setsockopt_keeps:
  "setsockopt w = (r, w1) \<Longrightarrow>
   sendto_rets w1 = sendto_rets w \<and> recvmsg_rets w1 = recvmsg_rets w"
  by (auto simp: setsockopt_def split: if_splits prod.splits list.splits)

lemma main_setup_keeps:
  assumes "main_setup ctl fam v4 w = (Inr ctl1, w1)"
  shows "max_hops ctl1 = max_hops ctl \<and> hops_to ctl1 = hops_to ctl \<and> hops_from ctl1 = hops_from ctl \<and>
   sendto_rets w1 = sendto_rets w \<and> recvmsg_rets w1 = recvmsg_rets w"
proof (cases fam)
  case AF_INET
  with assms show ?thesis by (simp add: main_setup_def main_setup_v4_keeps)
next
  case AF_INET6
  with assms show ?thesis
    by (auto simp: main_setup_def Let_def split: if_splits prod.splits
        dest!: setsockopt_twice_keeps setsockopt_keeps main_setup_v4_keeps)
qed

text \<open>
  Claim C8.  With \<open>max_hops = 0\<close>, once the setup has succeeded and the packet buffer
  is allocated the program sends no probe (no \<open>Sendto\<close> among the events, the send
  script untouched), reports too many hops with the current MTU estimate, prints the
  summary and exits with status 0.
\<close>

theorem no_probe_when_max_hops_zero:
  assumes "max_hops ctl = 0"
    and "main_setup ctl fam v4mapped w = (Inr ctl1, w1)"
    and "malloc_ok w1"
  shows "tracepath_main ctl fam v4mapped w =
           (Exit 0, ctl1\<lparr>pktbuf := nat (size_t (mtu ctl1))\<rparr>, w1,
            [Out_too_many_hops (mtu ctl1),
             Out_resume (mtu ctl1)
               (if hops_to ctl \<ge> 0 then Some (hops_to ctl) else None)
               (if hops_from ctl \<ge> 0 then Some (hops_from ctl) else None)]) \<and>
         sendto_rets w1 = sendto_rets w"
  using assms main_setup_keeps [OF assms(2)]
  by (simp add: tracepath_main_def
      ttl_loop.simps [of "ctl1\<lparr>pktbuf := nat (size_t (mtu ctl1))\<rparr>" fam 1 w1] at_done_def emit_def)

theorem no_probe_when_max_hops_zero_witness:
  "tracepath_main (ctl_parsed\<lparr>max_hops := 0\<rparr>) AF_INET False w_quiet =
     (Exit 0, ctl_parsed\<lparr>max_hops := 0, overhead := 28, mtu := 65535, pktbuf := 65535\<rparr>, w_quiet,
      [Out_too_many_hops 65535, Out_resume 65535 None None])"
proof -
  have "main_setup (ctl_parsed\<lparr>max_hops := 0\<rparr>) AF_INET False w_quiet =
      (Inr (ctl_parsed\<lparr>max_hops := 0, overhead := 28, mtu := 65535\<rparr>), w_quiet)"
    by (simp add: main_setup_def main_setup_v4_def setsockopt_def w_quiet_def ex_defs)
  from no_probe_when_max_hops_zero [OF _ this] show ?thesis
    by (simp add: w_quiet_def ex_defs size_t_def)
qed

lemma attempts_restart:
  assumes "i < 3" and "probe_ttl ctl t w = (Res res', ctl', w', out)"
    and "mtu ctl' \<noteq> mtu ctl"
  shows "attempts ctl t i res w = emit out (attempts ctl' t 0 res' w')"
  using assms by (simp add: attempts_step)

lemma attempts_no_reply:
  assumes "i < 3" and "probe_ttl ctl t w = (Res res', ctl', w', out)"
    and "mtu ctl' = mtu ctl" and "res' < 0"
  shows "attempts ctl t i res w = emit out (attempts ctl' t (i + 1) res' w')"
  using assms by (simp add: attempts_step)

lemma attempts_break:
  assumes "i < 3" and "probe_ttl ctl t w = (Res res', ctl', w', out)"
    and "mtu ctl' = mtu ctl" and "res' > 0"
  shows "attempts ctl t i res w = (Left_loop res', ctl', w', out)"
  using assms by (simp add: attempts_step)

lemma attempts_three_no_reply:
  assumes "probe_ttl c0 t w0 = (Res r1, c1, w1, o1)" and "mtu c1 = mtu c0" and "r1 < 0"
    and "probe_ttl c1 t w1 = (Res r2, c2, w2, o2)" and "mtu c2 = mtu c1" and "r2 < 0"
    and "probe_ttl c2 t w2 = (Res r3, c3, w3, o3)" and "mtu c3 = mtu c2" and "r3 < 0"
  shows "attempts c0 t 0 res w0 = (Left_loop r3, c3, w3, o1 @ o2 @ o3)"
proof -
  have a: "attempts c2 t (Suc (Suc 0)) r2 w2 = (Left_loop r3, c3, w3, o3)"
    using attempts_no_reply [OF _ assms(7-9), of "Suc (Suc 0)" r2]
    by (simp add: attempts_left emit_def)
  have b: "attempts c1 t (Suc 0) r1 w1 = (Left_loop r3, c3, w3, o2 @ o3)"
    using attempts_no_reply [OF _ assms(4-6), of "Suc 0" r1] a by (simp add: emit_def)
  show ?thesis
    using attempts_no_reply [OF _ assms(1-3), of 0 res] b by (simp add: emit_def)
qed

text \<open>
  Claim C7, as the code has it.  Lines 615-618 compare the MTU estimate after the call
  of \<^verbatim>\<open>probe_ttl\<close> with the estimate before it.  When the two differ, the attempt loop
  goes on at the same TTL from index 0, whatever the index \<open>i\<close> of the attempt was, and
  the budget is whole again: when the next three probes of that TTL each leave the
  estimate unchanged and get no reply, all three are made before the loop is left.  When
  the two are equal, whatever happened to the estimate during the call, the attempt
  counts: without a reply the loop goes on with index \<open>i + 1\<close>, and with a positive
  result it is left.
\<close>

theorem mtu_change_restarts_stage:
  assumes "i < 3"
    and "probe_ttl ctl t w = (Res res', ctl', w', out)"
  shows "(mtu ctl' \<noteq> mtu ctl \<longrightarrow>
            attempts ctl t i res w = emit out (attempts ctl' t 0 res' w') \<and>
            (probe_ttl ctl' t w' = (Res ra, ca, wa, oa) \<and> mtu ca = mtu ctl' \<and> ra < 0 \<and>
             probe_ttl ca t wa = (Res rb, cb, wb, ob) \<and> mtu cb = mtu ca \<and> rb < 0 \<and>
             probe_ttl cb t wb = (Res rc, cc, wc, oc) \<and> mtu cc = mtu cb \<and> rc < 0 \<longrightarrow>
               attempts ctl t i res w = (Left_loop rc, cc, wc, out @ oa @ ob @ oc))) \<and>
         (mtu ctl' = mtu ctl \<and> res' < 0 \<longrightarrow>
            attempts ctl t i res w = emit out (attempts ctl' t (i + 1) res' w')) \<and>
         (mtu ctl' = mtu ctl \<and> res' > 0 \<longrightarrow>
            attempts ctl t i res w = (Left_loop res', ctl', w', out))"
proof (intro conjI impI; (elim conjE)?)
  assume ch: "mtu ctl' \<noteq> mtu ctl"
  from assms ch show a: "attempts ctl t i res w = emit out (attempts ctl' t 0 res' w')"
    by (rule attempts_restart)
  assume "probe_ttl ctl' t w' = (Res ra, ca, wa, oa)" "mtu ca = mtu ctl'" "ra < 0"
    "probe_ttl ca t wa = (Res rb, cb, wb, ob)" "mtu cb = mtu ca" "rb < 0"
    "probe_ttl cb t wb = (Res rc, cc, wc, oc)" "mtu cc = mtu cb" "rc < 0"
  from attempts_three_no_reply [OF this, of res'] a
  show "attempts ctl t i res w = (Left_loop rc, cc, wc, out @ oa @ ob @ oc)"
    by (simp add: emit_def)
next
  assume "mtu ctl' = mtu ctl" "res' < 0"
  with assms show "attempts ctl t i res w = emit out (attempts ctl' t (i + 1) res' w')"
    by (rule attempts_no_reply)
next
  assume "mtu ctl' = mtu ctl" "res' > 0"
  with assms show "attempts ctl t i res w = (Left_loop res', ctl', w', out)"
    by (rule attempts_break)
qed

text \<open>
  The estimate is 1500 and the third attempt (\<open>i = 2\<close>) of TTL 1 is under way.  Its
  first \<^verbatim>\<open>sendto\<close> is refused and the decoder finds two message-too-big notifications:
  the estimate becomes 1400, then 1500 again, and the probe is sent once more.  The
  estimate changed during the attempt, but the stage is not restarted: the attempt was
  the last of the budget and the loop is left without a reply.
\<close>

theorem mtu_change_counterexample:
  "mtu ctl_v4 = 1500 \<and>
   mtu (fst (snd (recverr_msg ctl_v4 1 (icmp_msg EMSGSIZE 3 4 1400 44444 [Cmsg_IP_TTL 64])))) = 1400 \<and>
   fst (attempts ctl_v4 1 2 (-1) w_pmtu_back) = Left_loop (-1) \<and>
   mtu (fst (snd (attempts ctl_v4 1 2 (-1) w_pmtu_back))) = 1500 \<and>
   snd (snd (snd (attempts ctl_v4 1 2 (-1) w_pmtu_back))) =
     [Sendto 1472 44444 \<lparr>ttl = 1, tv = tv_at 100\<rparr>,
      Out_hop 1, Out_host, Out_rtt 5 0, Out_pmtu 1400,
      Out_hop_guess 1, Out_host, Out_pmtu 1500,
      Sendto 1472 44444 \<lparr>ttl = 1, tv = tv_at 101\<rparr>]"
  by (simp add: attempts.simps probe_defs w_pmtu_back_def tv_at_def ex_defs dec_defs)

text \<open>
  The third attempt (\<open>i = 2\<close>) of TTL 1 meets a notification that leaves the estimate
  at 1400: three more probes of TTL 1 follow with the new length.  A third attempt
  without any reply is the last one.  And a first attempt that draws a time-exceeded
  notification leaves the loop with the positive result 1500.
\<close>

theorem mtu_change_restarts_stage_witness:
  "snd (snd (snd (attempts ctl_v4 1 2 (-1) w_pmtu_once))) =
     [Sendto 1472 44444 \<lparr>ttl = 1, tv = \<lparr>tv_sec = 100, tv_usec = 0\<rparr>\<rparr>,
      Out_hop 1, Out_host, Out_rtt 5 0, Out_pmtu 1400,
      Sendto 1372 44445 \<lparr>ttl = 1, tv = \<lparr>tv_sec = 101, tv_usec = 0\<rparr>\<rparr>,
      Sendto 1372 44446 \<lparr>ttl = 1, tv = \<lparr>tv_sec = 102, tv_usec = 0\<rparr>\<rparr>,
      Sendto 1372 44447 \<lparr>ttl = 1, tv = \<lparr>tv_sec = 103, tv_usec = 0\<rparr>\<rparr>] \<and>
   fst (attempts ctl_v4 1 2 (-1) w_one_send) = Left_loop (-1) \<and>
   snd (snd (snd (attempts ctl_v4 1 2 (-1) w_one_send))) =
     [Sendto 1472 44444 \<lparr>ttl = 1, tv = tv_at 100\<rparr>] \<and>
   fst (attempts ctl_v4 1 0 0 w_hop) = Left_loop 1500 \<and>
   snd (snd (snd (attempts ctl_v4 1 0 0 w_hop))) =
     [Sendto 1472 44444 \<lparr>ttl = 1, tv = tv_at 100\<rparr>, Out_hop 1, Out_host, Out_rtt 5 0,
      Out_newline]"
proof -
  obtain r0 c0 w0 o0 where p0: "probe_ttl ctl_v4 1 w_pmtu_once = (r0, c0, w0, o0)"
    by (metis prod_cases4)
  obtain r1 c1 w1 o1 where p1: "probe_ttl c0 1 w0 = (r1, c1, w1, o1)"
    by (metis prod_cases4)
  obtain r2 c2 w2 o2 where p2: "probe_ttl c1 1 w1 = (r2, c2, w2, o2)"
    by (metis prod_cases4)
  obtain r3 c3 w3 o3 where p3: "probe_ttl c2 1 w2 = (r3, c3, w3, o3)"
    by (metis prod_cases4)
  note defs = probe_defs w_pmtu_once_def ex_defs dec_defs
  from p0 have v0: "r0 = Res 1400 \<and> mtu c0 = 1400 \<and>
     o0 = [Sendto 1472 44444 \<lparr>ttl = 1, tv = \<lparr>tv_sec = 100, tv_usec = 0\<rparr>\<rparr>,
           Out_hop 1, Out_host, Out_rtt 5 0, Out_pmtu 1400]"
    by (simp add: defs) auto
  from p0 have e0: "c0 = fst (snd (probe_ttl ctl_v4 1 w_pmtu_once))"
    "w0 = fst (snd (snd (probe_ttl ctl_v4 1 w_pmtu_once)))" by simp_all
  from p1 have e1: "c1 = fst (snd (probe_ttl c0 1 w0))"
    "w1 = fst (snd (snd (probe_ttl c0 1 w0)))" "r1 = fst (probe_ttl c0 1 w0)"
    "o1 = snd (snd (snd (probe_ttl c0 1 w0)))" by simp_all
  from p2 have e2: "c2 = fst (snd (probe_ttl c1 1 w1))"
    "w2 = fst (snd (snd (probe_ttl c1 1 w1)))" "r2 = fst (probe_ttl c1 1 w1)"
    "o2 = snd (snd (snd (probe_ttl c1 1 w1)))" by simp_all
  from p3 have e3: "c3 = fst (snd (probe_ttl c2 1 w2))" "r3 = fst (probe_ttl c2 1 w2)"
    "o3 = snd (snd (snd (probe_ttl c2 1 w2)))" by simp_all
  have v1: "mtu c1 = 1400 \<and> r1 = Res (-1) \<and>
     o1 = [Sendto 1372 44445 \<lparr>ttl = 1, tv = \<lparr>tv_sec = 101, tv_usec = 0\<rparr>\<rparr>]"
    unfolding e1 e0 by (simp add: defs)
  have v2: "mtu c2 = 1400 \<and> r2 = Res (-1) \<and>
     o2 = [Sendto 1372 44446 \<lparr>ttl = 1, tv = \<lparr>tv_sec = 102, tv_usec = 0\<rparr>\<rparr>]"
    unfolding e2 e1 e0 by (simp add: defs)
  have v3: "mtu c3 = 1400 \<and> r3 = Res (-1) \<and>
     o3 = [Sendto 1372 44447 \<lparr>ttl = 1, tv = \<lparr>tv_sec = 103, tv_usec = 0\<rparr>\<rparr>]"
    unfolding e3 e2 e1 e0 by (simp add: defs)
  from v0 have ch: "mtu c0 \<noteq> mtu ctl_v4" by (simp add: ex_defs)
  from v0 p0 have p0': "probe_ttl ctl_v4 1 w_pmtu_once = (Res 1400, c0, w0, o0)" by simp
  from mtu_change_restarts_stage [OF _ p0', where i = 2 and res = "-1"
      and ra = "-1" and ca = c1 and wa = w1 and oa = o1 and rb = "-1" and cb = c2 and wb = w2
      and ob = o2 and rc = "-1" and cc = c3 and wc = w3 and oc = o3,
      THEN conjunct1, THEN mp, OF _ ch, THEN conjunct2]
    p1 p2 p3 v0 v1 v2 v3
  have a: "attempts ctl_v4 1 2 (-1) w_pmtu_once = (Left_loop (-1), c3, w3, o0 @ o1 @ o2 @ o3)"
    by simp
  obtain c4 w4 where p4: "probe_ttl ctl_v4 1 w_one_send =
      (Res (-1), c4, w4, [Sendto 1472 44444 \<lparr>ttl = 1, tv = tv_at 100\<rparr>])"
    and m4: "mtu c4 = mtu ctl_v4"
    by (simp add: probe_defs w_one_send_def tv_at_def ex_defs dec_defs)
  from mtu_change_restarts_stage [OF _ p4, where i = 2 and res = "-1",
      THEN conjunct2, THEN conjunct1] m4
  have b: "attempts ctl_v4 1 2 (-1) w_one_send =
      (Left_loop (-1), c4, w4, [Sendto 1472 44444 \<lparr>ttl = 1, tv = tv_at 100\<rparr>])"
    by (simp add: attempts_left emit_def)
  obtain c5 w5 where p5: "probe_ttl ctl_v4 1 w_hop =
      (Res 1500, c5, w5, [Sendto 1472 44444 \<lparr>ttl = 1, tv = tv_at 100\<rparr>, Out_hop 1, Out_host,
         Out_rtt 5 0, Out_newline])"
    and m5: "mtu c5 = mtu ctl_v4"
    by (simp add: probe_defs w_hop_def tv_at_def ex_defs dec_defs)
  from mtu_change_restarts_stage [OF _ p5, where i = 0 and res = 0,
      THEN conjunct2, THEN conjunct2] m5
  have c: "attempts ctl_v4 1 0 0 w_hop =
      (Left_loop 1500, c5, w5, [Sendto 1472 44444 \<lparr>ttl = 1, tv = tv_at 100\<rparr>, Out_hop 1, Out_host,
         Out_rtt 5 0, Out_newline])"
    by simp
  from a b c v0 v1 v2 v3 show ?thesis by simp
qed

section \<open>Classification of one notification\<close>

text \<open>What the switch on \<^verbatim>\<open>ee_errno\<close> does for the codes the properties are about.\<close>

lemma recverr_msg_reached:
  assumes "errrec_of m = Some e" and "ee_errno e = ECONNREFUSED"
    and "recverr_msg ctl t m = (fl, c', out)"
  shows "fl = Return 0 \<and>
         hops_to c' = (if sndhops_of ctl m < 0 then t else sndhops_of ctl m) \<and>
         hops_from c' = rethops_of m \<and> mtu c' = mtu ctl \<and> Out_reached \<in> set out"
  using assms
  by (auto simp: stage_defs classify_def take_his_def split: prod.splits if_splits)


lemma recverr_msg_unreach_canonical:
  assumes "errrec_of m = Some e" and "ee_errno e = EHOSTUNREACH" and "canonical e"
    and "recverr_msg ctl t m = (fl, c', out)"
  shows "fl = Restart (mtu ctl) \<and> mtu c' = mtu ctl \<and>
         (0 \<le> rethops_of m \<and>
          rethops_of m \<noteq> (if 0 \<le> sndhops_of ctl m then sndhops_of ctl m else t) \<longrightarrow>
            Out_asymm (rethops_of m) \<in> set out)"
  using assms
  by (auto simp: stage_defs classify_def take_his_def asymm_def split: prod.splits if_splits)

lemma recverr_msg_unreach_other:
  assumes "errrec_of m = Some e" and "ee_errno e = EHOSTUNREACH" and "\<not> canonical e"
    and "recverr_msg ctl t m = (fl, c', out)"
  shows "fl = Return 0 \<and> mtu c' = mtu ctl \<and> Out_bang_H \<in> set out"
  using assms
  by (auto simp: stage_defs classify_def take_his_def split: prod.splits if_splits)

lemma recverr_loop_return:
  "recverr_msg ctl t m = (Return r, c', out) \<Longrightarrow>
   recverr_loop p ctl t (Recvmsg_ok m # q) = (r, c', q, out)"
  by simp

lemma recverr_loop_restart:
  "recverr_msg ctl t m = (Restart p', c', out) \<Longrightarrow>
   recverr_loop p ctl t (Recvmsg_ok m # q) = emit out (recverr_loop p' c' t q)"
  by (simp add: emit_def)


lemma ttl_loop_done:
  assumes "t \<le> max_hops ctl" and "set_hoplimit ctl fam w0 = (None, w)"
    and "attempts ctl t 0 0 w = (Goto_done, ctl', w', out)"
  shows "ttl_loop ctl fam t w0 =
           (Exit 0, ctl', w',
            out @ [Out_resume (mtu ctl')
                     (if hops_to ctl' \<ge> 0 then Some (hops_to ctl') else None)
                     (if hops_from ctl' \<ge> 0 then Some (hops_from ctl') else None)])"
  using assms by (simp add: ttl_loop.simps [of ctl fam t w0] emit_def at_done_def)


section \<open>No received hop limit\<close>

text \<open>
  Claim C10.  For a notification with an error record and no ancillary hop limit, the
  receive-side hop count is 66.  On destination reached the reverse hop count is
  recorded as 66, and a canonical host-unreachable notification whose send-side hop
  count (or probe TTL) is not 66 gets the asymmetry note with the value 66.
\<close>

theorem no_hoplimit_gives_66:
  assumes "recv_hoplimit (cmsgs m) = None" and "errrec_of m = Some e"
    and "recverr_msg ctl t m = (fl, c', out)"
  shows "rethops_of m = 66 \<and>
         (ee_errno e = ECONNREFUSED \<longrightarrow> hops_from c' = 66) \<and>
         (ee_errno e = EHOSTUNREACH \<and> canonical e \<and>
          (if 0 \<le> sndhops_of ctl m then sndhops_of ctl m else t) \<noteq> 66 \<longrightarrow>
            Out_asymm 66 \<in> set out)"
proof -
  from assms(1) have r: "rethops_of m = 66"
    by (simp add: rethops_of_eq norm_rethops_def int32_def)
  with recverr_msg_reached [OF assms(2) _ assms(3)]
    recverr_msg_unreach_canonical [OF assms(2) _ _ assms(3)]
  show ?thesis by auto
qed


theorem no_hoplimit_gives_66_witness:
  "hops_from (fst (snd (recverr_msg ctl_live0 1 (icmp_msg ECONNREFUSED 3 3 0 44444 [])))) = 66 \<and>
   Out_asymm 66 \<in> set (snd (snd (recverr_msg ctl_live0 1 (icmp_msg EHOSTUNREACH 11 0 0 44444 []))))"
proof -
  let ?m = "icmp_msg ECONNREFUSED 3 3 0 44444 []"
  let ?e = "\<lparr>ee_errno = ECONNREFUSED, ee_origin = SO_EE_ORIGIN_ICMP, ee_type = 3,
             ee_code = 3, ee_info = 0\<rparr>"
  let ?m' = "icmp_msg EHOSTUNREACH 11 0 0 44444 []"
  let ?e' = "\<lparr>ee_errno = EHOSTUNREACH, ee_origin = SO_EE_ORIGIN_ICMP, ee_type = 11,
             ee_code = 0, ee_info = 0\<rparr>"
  have h: "recv_hoplimit (cmsgs ?m) = None" "recv_hoplimit (cmsgs ?m') = None"
    by (simp_all add: icmp_msg_def)
  have e: "errrec_of ?m = Some ?e" "errrec_of ?m' = Some ?e'"
    by (simp_all add: errrec_of_def icmp_msg_def)
  have sh: "sndhops_of ctl_live0 ?m' = 1"
    by (simp add: sndhops_of_def his_of_def icmp_msg_def take_his_def slot_of_def use_payload_def
        sizeof_probehdr_def ctl_live0_def ex_defs)
  obtain fl c out where r: "recverr_msg ctl_live0 1 ?m = (fl, c, out)"
    by (metis prod_cases3)
  obtain fl' c' out' where r': "recverr_msg ctl_live0 1 ?m' = (fl', c', out')"
    by (metis prod_cases3)
  from no_hoplimit_gives_66 [OF h(1) e(1) r] have "hops_from c = 66" by simp
  moreover from no_hoplimit_gives_66 [OF h(2) e(2) r'] sh have "Out_asymm 66 \<in> set out'"
    by (simp add: canonical_def)
  ultimately show ?thesis using r r' by simp
qed

section \<open>The length of every probe\<close>

text \<open>Each function of the program keeps the length rule along its events.\<close>

lemma cur_mtu_append: "cur_mtu L (a @ b) = cur_mtu (cur_mtu L a) b"
  by (induction L a rule: cur_mtu.induct) auto

lemma lengths_ok_append:
  "lengths_ok L ovh (a @ b) \<longleftrightarrow> lengths_ok L ovh a \<and> lengths_ok (cur_mtu L a) ovh b"
  by (induction L ovh a rule: lengths_ok.induct) auto

lemma plain_cur_mtu: "plain out \<Longrightarrow> cur_mtu L out = L"
  by (induction L out rule: cur_mtu.induct) (auto simp: plain_def)

lemma plain_lengths_ok: "plain out \<Longrightarrow> lengths_ok L ovh out"
  by (induction L ovh out rule: lengths_ok.induct) (auto simp: plain_def)

lemma plain_append [simp]: "plain (a @ b) \<longleftrightarrow> plain a \<and> plain b"
  by (auto simp: plain_def)

lemma plain_Nil [simp]: "plain []"
  by (simp add: plain_def)

lemma tracks_plain:
  "plain out \<Longrightarrow> mtu c' = mtu c \<Longrightarrow> overhead c' = overhead c \<Longrightarrow> tracks c out c'"
  by (simp add: tracks_def plain_cur_mtu plain_lengths_ok)

lemma tracks_trans: "tracks a o1 b \<Longrightarrow> tracks b o2 c \<Longrightarrow> tracks a (o1 @ o2) c"
  by (auto simp: tracks_def cur_mtu_append lengths_ok_append)

lemma scan_cmsgs_plain: "scan_cmsgs cs e r = (e', r', out) \<Longrightarrow> plain out"
  by (induction cs e r arbitrary: e' r' out rule: scan_cmsgs.induct)
    (auto simp: plain_def split: prod.splits)

lemma print_origin_plain: "plain (print_origin e s t)"
  by (simp add: print_origin_def plain_def)

lemma print_rtt_plain: "plain (print_rtt tm rt br)"
  by (simp add: print_rtt_def plain_def Let_def split: option.splits)

lemma is_int_sint: "is_int (sint (x :: 32 word))"
  using sint_ge [of x] sint_lt [of x] by (simp add: is_int_def)

lemma classify_tracks: "classify c t e s rh p = (fl, c', out) \<Longrightarrow> tracks c out c'"
  by (auto simp: classify_def tracks_def asymm_def is_int_sint split: errno.splits if_splits)

lemma take_his_keeps:
  "take_his ctl sl = (s1, r1, ctl1) \<Longrightarrow> mtu ctl1 = mtu ctl \<and> overhead ctl1 = overhead ctl"
  by (auto simp: take_his_def split: if_splits)

lemma recverr_msg_tracks:
  assumes "recverr_msg ctl t m = (fl, c', out)"
  shows "tracks ctl out c'"
proof -
  obtain s1 r1 ctl1 where th: "take_his ctl (slot_of ctl m) = (s1, r1, ctl1)"
    by (metis prod_cases3)
  obtain s rt br where up: "use_payload m (s1, r1) = (s, rt, br)"
    by (metis prod_cases3)
  obtain e rh o1 where sc: "scan_cmsgs (cmsgs m) None (-1) = (e, rh, o1)"
    by (metis prod_cases3)
  note k = take_his_keeps [OF th]
  note p1 = scan_cmsgs_plain [OF sc]
  show ?thesis
  proof (cases e)
    case None
    with assms th sc have "c' = ctl1" "out = o1 @ [Out_no_info]"
      by (simp_all add: recverr_msg_no_info)
    with k p1 show ?thesis by (intro tracks_plain) (simp_all add: plain_def)
  next
    case (Some x)
    obtain fl' c2 o4 where cl: "classify ctl1 t x s (norm_rethops rh) (mtu ctl) = (fl', c2, o4)"
      by (metis prod_cases3)
    from recverr_msg_eq [OF th up sc [unfolded Some] cl] assms
    have eq: "c' = c2" "out = (o1 @ print_origin x s t @ print_rtt (now m) rt br) @ o4"
      by simp_all
    have "tracks ctl (o1 @ print_origin x s t @ print_rtt (now m) rt br) ctl1"
      using k p1 by (intro tracks_plain) (simp_all add: print_origin_plain print_rtt_plain)
    from tracks_trans [OF this classify_tracks [OF cl]] eq show ?thesis by simp
  qed
qed

lemma tracks_refl [simp]: "tracks c [] c"
  by (simp add: tracks_def)

lemma recverr_loop_tracks:
  "recverr_loop p ctl t q = (r, ctl', q', out) \<Longrightarrow> tracks ctl out ctl'"
proof (induction p ctl t q arbitrary: r ctl' q' out rule: recverr_loop.induct)
  case (4 progress ctl the_ttl m q)
  obtain fl c1 o1 where rm: "recverr_msg ctl the_ttl m = (fl, c1, o1)"
    by (metis prod_cases3)
  note t1 = recverr_msg_tracks [OF rm]
  show ?case
  proof (cases fl)
    case (Return x)
    with "4.prems" rm t1 show ?thesis by simp
  next
    case (Restart x)
    from "4.prems" rm Restart obtain o2 where
      rl: "recverr_loop x c1 the_ttl q = (r, ctl', q', o2)" and o: "out = o1 @ o2"
      by (auto split: prod.splits)
    from "4.IH" [OF rm [symmetric] _ refl rl] Restart have "tracks c1 o2 ctl'" by simp
    from tracks_trans [OF t1 this] o show ?thesis by simp
  qed
qed auto

lemma recverr_tracks: "recverr ctl t q = (r, ctl', q', out) \<Longrightarrow> tracks ctl out ctl'"
  unfolding recverr_def by (rule recverr_loop_tracks)


lemma sendto_len:
  assumes "is_int (mtu c)" and "0 \<le> overhead c" and "overhead c < mtu c"
  shows "size_t (int32 (mtu c - overhead c)) = mtu c - overhead c"
proof -
  from assms have r: "0 \<le> mtu c - overhead c" "mtu c - overhead c < 2147483648"
    by (simp_all add: is_int_def)
  then have "int32 (mtu c - overhead c) = mtu c - overhead c"
    by (intro int32_id) simp_all
  moreover from r have "take_bit 64 (mtu c - overhead c) = mtu c - overhead c"
    by (intro take_bit_int_eq_self) simp_all
  ultimately show ?thesis by (simp add: size_t_def)
qed

lemma sendto_tracks: "tracks c [sendto_call c t tm] c"
  by (simp add: tracks_def sendto_call_def sendto_len)

lemma record_probe_keeps [simp]:
  "mtu (record_probe c t tm) = mtu c" "overhead (record_probe c t tm) = overhead c"
  by (simp_all add: record_probe_def)

lemma clear_probe_keeps [simp]:
  "mtu (clear_probe c) = mtu c" "overhead (clear_probe c) = overhead c"
  by (simp_all add: clear_probe_def)

lemma tracks_cong:
  "tracks a out b \<Longrightarrow> mtu a' = mtu a \<Longrightarrow> overhead a' = overhead a \<Longrightarrow>
   mtu b' = mtu b \<Longrightarrow> overhead b' = overhead b \<Longrightarrow> tracks a' out b'"
  by (simp add: tracks_def)

lemma probe_wait_tracks: "probe_wait c t w = (r, c', w', out) \<Longrightarrow> tracks c out c'"
  by (erule probe_wait_cases) (auto simp: plain_def intro: tracks_plain dest: recverr_tracks)

lemma probe_loop_tracks:
  "probe_loop ctl t i w = (r, ctl', w', out) \<Longrightarrow> tracks ctl out ctl'"
proof (induction ctl t i w arbitrary: r out rule: probe_loop_cases)
  case (exhausted ctl the_ttl i w)
  then show ?case
    by (auto simp: probe_loop_exhausted plain_def intro: tracks_plain)
next
  case (overrun ctl the_ttl i w)
  then show ?case
    by (auto simp: probe_loop_overrun)
next
  case (overread ctl the_ttl i w t ok w1)
  let ?c1 = "record_probe ctl the_ttl t"
  have "tracks ctl [sendto_call ?c1 the_ttl t] ?c1"
    by (rule tracks_cong [OF sendto_tracks [of ?c1 the_ttl t]]) simp_all
  with overread(6) show ?case
    by (auto simp: probe_loop_overread [OF overread(1-5)])
next
  case (sent ctl the_ttl i w t ok w1)
  let ?c1 = "record_probe ctl the_ttl t"
  from sent(6) obtain o' where
    pw: "probe_wait (?c1\<lparr>hisptr := (hisptr ?c1 + 1) AND 63\<rparr>) the_ttl w1 = (r, ctl', w', o')"
    and o: "out = [sendto_call ?c1 the_ttl t] @ o'"
    by (auto simp: probe_loop_sent [OF sent(1-5)] emit_eq)
  have "tracks ctl [sendto_call ?c1 the_ttl t] (?c1\<lparr>hisptr := (hisptr ?c1 + 1) AND 63\<rparr>)"
    by (rule tracks_cong [OF sendto_tracks [of ?c1 the_ttl t]]) simp_all
  from tracks_trans [OF this probe_wait_tracks [OF pw]] o show ?case by simp
next
  case (failed ctl the_ttl i w t ok w1 res ctl2 q' out0)
  let ?c1 = "record_probe ctl the_ttl t"
  have a: "tracks ctl [sendto_call ?c1 the_ttl t] ?c1"
    by (rule tracks_cong [OF sendto_tracks [of ?c1 the_ttl t]]) simp_all
  have b: "tracks ?c1 out0 (clear_probe ctl2)"
    by (rule tracks_cong [OF recverr_tracks [OF failed(5)]]) simp_all
  note ab = tracks_trans [OF a b]
  show ?case
  proof (cases "res = 0")
    case True
    with failed(7) ab show ?thesis
      by (simp add: probe_loop_failed [OF failed(1-5)])
  next
    case False
    with failed(7) obtain o' where
      pl: "probe_loop (clear_probe ctl2) the_ttl (if res > 0 then 0 else i + 1) (w1\<lparr>recvmsg_rets := q'\<rparr>)
         = (r, ctl', w', o')"
      and o: "out = ([sendto_call ?c1 the_ttl t] @ out0) @ o'"
      by (auto simp: probe_loop_failed [OF failed(1-5)] emit_eq)
    from tracks_trans [OF ab failed(6) [OF False pl]] o show ?thesis by simp
  qed
qed

lemma probe_ttl_tracks: "probe_ttl ctl t w = (r, ctl', w', out) \<Longrightarrow> tracks ctl out ctl'"
  by (erule probe_ttl_cases) (auto dest: probe_loop_tracks)

lemma attempts_tracks:
  "attempts ctl t i res w = (st, ctl', w', out) \<Longrightarrow> tracks ctl out ctl'"
proof (induction ctl t i res w arbitrary: st out rule: attempts_cases)
  case (left ctl the_ttl i res w)
  then show ?case by (simp add: attempts_left)
next
  case (overrun ctl the_ttl i res w c1 w1 o1)
  from overrun(3) probe_ttl_tracks [OF overrun(2)] show ?case
    by (simp add: attempts_overrun [OF overrun(1,2)])
next
  case (step ctl the_ttl i res w r1 c1 w1 o1)
  note t1 = probe_ttl_tracks [OF step(2)]
  consider (changed) "mtu c1 \<noteq> mtu ctl" | (stop) "mtu c1 = mtu ctl" "r1 \<ge> 0"
    | (retry) "mtu c1 = mtu ctl" "r1 < 0"
    by linarith
  then show ?case
  proof cases
    case changed
    with step(5) obtain o' where a: "attempts c1 the_ttl 0 r1 w1 = (st, ctl', w', o')"
      and o: "out = o1 @ o'"
      by (auto simp: attempts_step [OF step(1,2)] emit_eq)
    from tracks_trans [OF t1 step(3) [OF changed a]] o show ?thesis by simp
  next
    case stop
    with step(5) t1 show ?thesis
      by (auto simp: attempts_step [OF step(1,2)] split: if_splits)
  next
    case retry
    with step(5) obtain o' where a: "attempts c1 the_ttl (i + 1) r1 w1 = (st, ctl', w', o')"
      and o: "out = o1 @ o'"
      by (auto simp: attempts_step [OF step(1,2)] emit_eq)
    from tracks_trans [OF t1 step(4) [OF retry a]] o show ?thesis by simp
  qed
qed


lemma ttl_loop_end:
  "\<not> t \<le> max_hops ctl \<Longrightarrow>
   ttl_loop ctl fam t w = emit [Out_too_many_hops (mtu ctl)] (at_done ctl w)"
  by (simp add: ttl_loop.simps [of ctl fam t w])

lemma ttl_loop_sockerr:
  "t \<le> max_hops ctl \<Longrightarrow> set_hoplimit ctl fam w = (Some err, w1) \<Longrightarrow>
   ttl_loop ctl fam t w = (Exit 1, ctl, w1, [Out_perror err])"
  by (simp add: ttl_loop.simps [of ctl fam t w])

lemma ttl_loop_overran:
  "t \<le> max_hops ctl \<Longrightarrow> set_hoplimit ctl fam w = (None, w1) \<Longrightarrow>
   attempts ctl t 0 0 w1 = (Overran, ctl', w', out) \<Longrightarrow>
   ttl_loop ctl fam t w = (Undefined_behaviour, ctl', w', out)"
  by (simp add: ttl_loop.simps [of ctl fam t w])

lemma ttl_loop_next:
  "t \<le> max_hops ctl \<Longrightarrow> set_hoplimit ctl fam w = (None, w1) \<Longrightarrow>
   attempts ctl t 0 0 w1 = (Left_loop res, ctl', w', out) \<Longrightarrow>
   ttl_loop ctl fam t w =
     emit (out @ (if res < 0 then [Out_no_reply t] else [])) (ttl_loop ctl' fam (t + 1) w')"
  by (simp add: ttl_loop.simps [of ctl fam t w])

lemma at_done_tracks: "at_done c w = (st, c', w', out) \<Longrightarrow> tracks c out c'"
  by (auto simp: at_done_def plain_def intro: tracks_plain)

lemma ttl_loop_tracks:
  "ttl_loop ctl fam t w = (st, ctl', w', out) \<Longrightarrow> tracks ctl out ctl'"
proof (induction ctl fam t w arbitrary: st out rule: ttl_loop.induct)
  case (1 ctl fam the_ttl w)
  show ?case
  proof (cases "the_ttl \<le> max_hops ctl")
    case False
    from "1.prems" obtain o' where "at_done ctl w = (st, ctl', w', o')"
      and o: "out = [Out_too_many_hops (mtu ctl)] @ o'"
      by (auto simp: ttl_loop_end [OF False] emit_eq)
    from at_done_tracks [OF this(1)] have "tracks ctl o' ctl'" .
    moreover have "tracks ctl [Out_too_many_hops (mtu ctl)] ctl"
      by (intro tracks_plain) (simp_all add: plain_def)
    ultimately show ?thesis using o tracks_trans by blast
  next
    case True
    obtain er w1 where sh: "set_hoplimit ctl fam w = (er, w1)"
      by (cases "set_hoplimit ctl fam w") auto
    show ?thesis
    proof (cases er)
      case (Some err)
      with "1.prems" sh True show ?thesis
        by (auto simp: ttl_loop_sockerr plain_def intro: tracks_plain)
    next
      case None
      obtain sg c1 w2 o1 where at: "attempts ctl the_ttl 0 0 w1 = (sg, c1, w2, o1)"
        by (metis prod_cases4)
      note t1 = attempts_tracks [OF at]
      show ?thesis
      proof (cases sg)
        case Goto_done
        from ttl_loop_done [OF True sh [unfolded None] at [unfolded Goto_done]] "1.prems"
        have "ctl' = c1" and o: "out = o1 @ [Out_resume (mtu c1)
                     (if hops_to c1 \<ge> 0 then Some (hops_to c1) else None)
                     (if hops_from c1 \<ge> 0 then Some (hops_from c1) else None)]"
          by simp_all
        moreover have "tracks c1 [Out_resume (mtu c1)
                     (if hops_to c1 \<ge> 0 then Some (hops_to c1) else None)
                     (if hops_from c1 \<ge> 0 then Some (hops_from c1) else None)] c1"
          by (intro tracks_plain) (simp_all add: plain_def)
        ultimately show ?thesis using t1 tracks_trans by blast
      next
        case (Left_loop res)
        let ?nr = "if res < 0 then [Out_no_reply the_ttl] else []"
        from ttl_loop_next [OF True sh [unfolded None] at [unfolded Left_loop]] "1.prems"
        have "emit (o1 @ ?nr) (ttl_loop c1 fam (the_ttl + 1) w2) = (st, ctl', w', out)"
          by simp
        then obtain o' where tl: "ttl_loop c1 fam (the_ttl + 1) w2 = (st, ctl', w', o')"
          and o: "out = (o1 @ ?nr) @ o'"
          unfolding emit_eq by blast
        have "tracks c1 ?nr c1"
          by (intro tracks_plain) (simp_all add: plain_def)
        from tracks_trans [OF tracks_trans [OF t1 this]
            "1.IH" [OF True sh [symmetric, unfolded None] refl at [symmetric, unfolded Left_loop] refl refl refl tl]] o
        show ?thesis by simp
      next
        case Overran
        from ttl_loop_overran [OF True sh [unfolded None] at [unfolded Overran]] "1.prems" t1
        show ?thesis by simp
      qed
    qed
  qed
qed

lemma main_setup_v4_len:
  "main_setup_v4 ctl w = (Inr ctl1, w1) \<Longrightarrow>
   overhead ctl1 = 28 \<and> 28 < mtu ctl1 \<and>
   (mtu ctl \<noteq> 0 \<longrightarrow> mtu ctl1 = mtu ctl) \<and> (mtu ctl = 0 \<longrightarrow> mtu ctl1 = 65535)"
  by (auto simp: main_setup_v4_def Let_def split: if_splits prod.splits)

lemma main_setup_len:
  assumes "main_setup ctl fam v4mapped w = (Inr ctl1, w1)"
  shows "overhead ctl1 = (if fam = AF_INET \<or> v4mapped then 28 else 48) \<and>
         overhead ctl1 < mtu ctl1 \<and>
         (mtu ctl \<noteq> 0 \<longrightarrow> mtu ctl1 = mtu ctl) \<and>
         (mtu ctl = 0 \<longrightarrow> mtu ctl1 = (if fam = AF_INET then 65535 else 128000))"
proof (cases fam)
  case AF_INET
  with assms main_setup_v4_len [of ctl w ctl1 w1] show ?thesis
    by (simp add: main_setup_def)
next
  case AF_INET6
  with assms show ?thesis
    by (auto simp: main_setup_def Let_def split: if_splits prod.splits dest!: main_setup_v4_len)
qed

text \<open>
  Claim C3.  After a successful setup the overhead is 28 for IPv4 (and for an
  IPv4-mapped target, whose packets are IPv4) and 48 for IPv6, the packet length exceeds
  it, and a configured length is kept as the MTU estimate.  In the whole run every
  \<^verbatim>\<open>sendto\<close> made while the MTU estimate exceeds the overhead asks for exactly the MTU
  estimate at that moment minus the overhead.
\<close>

theorem probe_length:
  assumes "main_setup ctl fam v4mapped w = (Inr ctl1, w1)"
    and "is_int (mtu ctl)"
    and "tracepath_main ctl fam v4mapped w = (st, ctl', w', out)"
  shows "overhead ctl1 = (if fam = AF_INET \<or> v4mapped then 28 else 48) \<and>
         overhead ctl1 < mtu ctl1 \<and>
         (mtu ctl \<noteq> 0 \<longrightarrow> mtu ctl1 = mtu ctl) \<and>
         lengths_ok (mtu ctl1) (overhead ctl1) out"
proof -
  note s = main_setup_len [OF assms(1)]
  from s assms(2) have i: "is_int (mtu ctl1) \<and> 0 \<le> overhead ctl1"
    by (cases "mtu ctl = 0") (auto simp: is_int_def)
  have "lengths_ok (mtu ctl1) (overhead ctl1) out"
  proof (cases "malloc_ok w1")
    case False
    with assms(1,3) show ?thesis by (auto simp: tracepath_main_def)
  next
    case True
    with assms(1,3) have "ttl_loop (ctl1\<lparr>pktbuf := nat (size_t (mtu ctl1))\<rparr>) fam 1 w1 = (st, ctl', w', out)"
      by (simp add: tracepath_main_def)
    from ttl_loop_tracks [OF this] i show ?thesis by (simp add: tracks_def)
  qed
  with s show ?thesis by simp
qed

text \<open>
  With length 1500 over IPv4 the first probe asks for 1472 bytes; after a
  message-too-big notification carrying 1400 the next three ask for 1372.
\<close>

theorem probe_length_witness:
  "lengths_ok 1500 28
     (snd (snd (snd (tracepath_main (ctl_parsed\<lparr>mtu := 1500, max_hops := 1\<rparr>) AF_INET False
                       w_pmtu_once)))) \<and>
   snd (snd (snd (tracepath_main (ctl_parsed\<lparr>mtu := 1500, max_hops := 1\<rparr>) AF_INET False
                       w_pmtu_once))) =
     [Sendto 1472 44444 \<lparr>ttl = 1, tv = tv_at 100\<rparr>, Out_hop 1, Out_host, Out_rtt 5 0,
      Out_pmtu 1400,
      Sendto 1372 44445 \<lparr>ttl = 1, tv = tv_at 101\<rparr>,
      Sendto 1372 44446 \<lparr>ttl = 1, tv = tv_at 102\<rparr>,
      Sendto 1372 44447 \<lparr>ttl = 1, tv = tv_at 103\<rparr>,
      Out_no_reply 1, Out_too_many_hops 1400, Out_resume 1400 None None]"
proof -
  let ?c = "ctl_parsed\<lparr>mtu := 1500, max_hops := 1\<rparr>"
  have s: "main_setup ?c AF_INET False w_pmtu_once = (Inr (?c\<lparr>overhead := 28\<rparr>), w_pmtu_once)"
    by (simp add: main_setup_def main_setup_v4_def setsockopt_def w_pmtu_once_def ex_defs)
  have i: "is_int (mtu ?c)"
    by (simp add: is_int_def)
  obtain st c' w' out where r: "tracepath_main ?c AF_INET False w_pmtu_once = (st, c', w', out)"
    by (metis prod_cases4)
  from probe_length [OF s i r] have "lengths_ok 1500 28 out"
    by simp
  moreover have "snd (snd (snd (tracepath_main ?c AF_INET False w_pmtu_once))) =
     [Sendto 1472 44444 \<lparr>ttl = 1, tv = tv_at 100\<rparr>, Out_hop 1, Out_host, Out_rtt 5 0,
      Out_pmtu 1400,
      Sendto 1372 44445 \<lparr>ttl = 1, tv = tv_at 101\<rparr>,
      Sendto 1372 44446 \<lparr>ttl = 1, tv = tv_at 102\<rparr>,
      Sendto 1372 44447 \<lparr>ttl = 1, tv = tv_at 103\<rparr>,
      Out_no_reply 1, Out_too_many_hops 1400, Out_resume 1400 None None]"
    by (simp add: run_defs probe_defs w_pmtu_once_def tv_at_def ex_defs dec_defs)
  ultimately show ?thesis using r by simp
qed

section \<open>The MTU estimate\<close>

text \<open>What one notification does to the estimate (line 291).\<close>

lemma recverr_msg_mtu:
  "recverr_msg ctl t m = (fl, ctl', out) \<Longrightarrow>
   mtu ctl' = (case notified_mtu m of Some v \<Rightarrow> v | None \<Rightarrow> mtu ctl)"
  by (auto simp: recverr_msg_def notified_mtu_def take_his_def classify_def Let_def
      split: prod.splits option.splits errno.splits if_splits)

text \<open>
  Claim C1 says that a message-too-big notification never makes the MTU estimate larger,
  whatever value it carries.  The program depends on that: the packet buffer is
  allocated once, with the size of the first estimate (line 584), and later the current
  estimate is the number of bytes that line 340 clears in it and that line 373 lets
  \<^verbatim>\<open>recv\<close> write into it.  But line 291 assigns the notified value without comparing it
  with the estimate.  Here the packet length is 1500 and the first probe draws a
  message-too-big notification that carries 9000: the estimate becomes 9000, the stage
  is started again, and the \<^verbatim>\<open>memset\<close> of the next probe clears 9000 bytes of a block of
  1500.
\<close>

theorem mtu_grows_past_buffer:
  "mtu ctl_v4 = 1500 \<and> pktbuf ctl_v4 = 1500 \<and>
   notified_mtu (icmp_msg EMSGSIZE 3 4 9000 44444 [Cmsg_IP_TTL 64]) = Some 9000 \<and>
   mtu (fst (snd (recverr_msg ctl_v4 1 (icmp_msg EMSGSIZE 3 4 9000 44444 [Cmsg_IP_TTL 64])))) = 9000 \<and>
   fst (tracepath_main (ctl_parsed\<lparr>mtu := 1500\<rparr>) AF_INET False w_pmtu_grows) = Undefined_behaviour \<and>
   mtu (fst (snd (tracepath_main (ctl_parsed\<lparr>mtu := 1500\<rparr>) AF_INET False w_pmtu_grows))) = 9000 \<and>
   pktbuf (fst (snd (tracepath_main (ctl_parsed\<lparr>mtu := 1500\<rparr>) AF_INET False w_pmtu_grows))) = 1500 \<and>
   snd (snd (snd (tracepath_main (ctl_parsed\<lparr>mtu := 1500\<rparr>) AF_INET False w_pmtu_grows))) =
     [Sendto 1472 44444 \<lparr>ttl = 1, tv = tv_at 100\<rparr>, Out_hop 1, Out_host, Out_rtt 5 0,
      Out_pmtu 9000]"
  by (simp add: run_defs probe_defs w_pmtu_grows_def tv_at_def ex_defs dec_defs notified_mtu_def)

section \<open>Events that end a run\<close>

text \<open>
  The lines \<^verbatim>\<open>reached\<close> and \<^verbatim>\<open>!H\<close> are each printed by one branch of the switch of
  \<^verbatim>\<open>recverr\<close>, which returns 0 at once: in the events of each function such a line can
  only come last.
\<close>

lemma no_pmtu_cur_mtu: "no_pmtu out \<Longrightarrow> cur_mtu L out = L"
  by (induction L out rule: cur_mtu.induct) (auto simp: no_pmtu_def)

lemma no_pmtu_append [simp]: "no_pmtu (a @ b) \<longleftrightarrow> no_pmtu a \<and> no_pmtu b"
  by (auto simp: no_pmtu_def)

lemma ends_with_prepend: "ev \<notin> set a \<Longrightarrow> ends_with ev b \<Longrightarrow> ends_with ev (a @ b)"
  by (auto simp: ends_with_def)

lemma ends_with_Cons: "e \<noteq> ev \<Longrightarrow> ends_with ev b \<Longrightarrow> ends_with ev (e # b)"
  using ends_with_prepend [of ev "[e]" b] by auto

lemma scan_cmsgs_no_final:
  "scan_cmsgs cs e r = (e', r', out) \<Longrightarrow> final_event ev \<Longrightarrow> ev \<notin> set out"
  by (induction cs e r arbitrary: e' r' out rule: scan_cmsgs.induct)
    (auto simp: final_event_def split: prod.splits)

lemma classify_final:
  "classify c t e s rh p = (fl, c', out) \<Longrightarrow> final_event ev \<Longrightarrow>
   ev \<notin> set out \<or> (fl = Return 0 \<and> out = [ev])"
  by (auto simp: classify_def asymm_def final_event_def split: errno.splits if_splits)

lemma recverr_msg_final_last:
  assumes "recverr_msg ctl t m = (fl, c', out)" and fe: "final_event ev"
  shows "ev \<notin> set out \<or> (fl = Return 0 \<and> ends_with ev out)"
proof -
  obtain s1 r1 ctl1 where th: "take_his ctl (slot_of ctl m) = (s1, r1, ctl1)"
    by (metis prod_cases3)
  obtain s rt br where up: "use_payload m (s1, r1) = (s, rt, br)"
    by (metis prod_cases3)
  obtain e rh o1 where sc: "scan_cmsgs (cmsgs m) None (-1) = (e, rh, o1)"
    by (metis prod_cases3)
  note n1 = scan_cmsgs_no_final [OF sc fe]
  show ?thesis
  proof (cases e)
    case None
    with assms(1) th sc have "out = o1 @ [Out_no_info]"
      by (simp add: recverr_msg_no_info)
    with n1 fe show ?thesis by (auto simp: final_event_def)
  next
    case (Some x)
    obtain fl' c2 o4 where cl: "classify ctl1 t x s (norm_rethops rh) (mtu ctl) = (fl', c2, o4)"
      by (metis prod_cases3)
    from recverr_msg_eq [OF th up sc [unfolded Some] cl] assms(1)
    have eq: "fl = fl'" "out = (o1 @ print_origin x s t @ print_rtt (now m) rt br) @ o4"
      by simp_all
    have pre: "ev \<notin> set (o1 @ print_origin x s t @ print_rtt (now m) rt br)"
      using n1 fe
      by (auto simp: print_origin_def print_rtt_def Let_def final_event_def
          split: option.splits if_splits)
    from classify_final [OF cl fe] show ?thesis
    proof
      assume "ev \<notin> set o4"
      with pre eq show ?thesis by simp
    next
      assume "fl' = Return 0 \<and> o4 = [ev]"
      with pre eq show ?thesis
        unfolding ends_with_def by blast
    qed
  qed
qed

lemma recverr_loop_final_last:
  "recverr_loop p ctl t q = (r, ctl', q', out) \<Longrightarrow> final_event ev \<Longrightarrow>
   ev \<notin> set out \<or> (r = 0 \<and> ends_with ev out)"
proof (induction p ctl t q arbitrary: r ctl' q' out rule: recverr_loop.induct)
  case (4 progress ctl the_ttl m q)
  obtain fl c1 o1 where rm: "recverr_msg ctl the_ttl m = (fl, c1, o1)"
    by (metis prod_cases3)
  note h = recverr_msg_final_last [OF rm "4.prems"(2)]
  show ?case
  proof (cases fl)
    case (Return x)
    with "4.prems"(1) rm h show ?thesis by auto
  next
    case (Restart x)
    from "4.prems"(1) rm Restart obtain o2 where
      rl: "recverr_loop x c1 the_ttl q = (r, ctl', q', o2)" and o: "out = o1 @ o2"
      by (auto split: prod.splits)
    from h Restart have n: "ev \<notin> set o1" by simp
    from "4.IH" [OF rm [symmetric] _ refl rl "4.prems"(2)] Restart
    have "ev \<notin> set o2 \<or> (r = 0 \<and> ends_with ev o2)" by simp
    with n o show ?thesis by (auto intro: ends_with_prepend)
  qed
qed auto

lemma recverr_final_last:
  "recverr ctl t q = (r, ctl', q', out) \<Longrightarrow> final_event ev \<Longrightarrow>
   ev \<notin> set out \<or> (r = 0 \<and> ends_with ev out)"
  unfolding recverr_def by (rule recverr_loop_final_last)

lemma probe_wait_final_last:
  assumes "probe_wait c t w = (r, c', w', out)" and fe: "final_event ev"
  shows "ev \<notin> set out \<or> (r = Res 0 \<and> ends_with ev out)"
  using assms(1)
proof (cases rule: probe_wait_cases)
  case (decoded n w1 res q')
  from recverr_final_last [OF decoded(4) fe] decoded(5) show ?thesis by auto
qed (use fe in \<open>auto simp: final_event_def\<close>)

lemma sendto_call_not_final: "final_event ev \<Longrightarrow> sendto_call c t tm \<noteq> ev"
  by (auto simp: sendto_call_def final_event_def)

lemma probe_loop_final_last:
  "probe_loop ctl t i w = (r, ctl', w', out) \<Longrightarrow> final_event ev \<Longrightarrow>
   ev \<notin> set out \<or> (r = Res 0 \<and> ends_with ev out)"
proof (induction ctl t i w arbitrary: r out rule: probe_loop_cases)
  case (exhausted ctl the_ttl i w)
  then show ?case by (auto simp: probe_loop_exhausted final_event_def)
next
  case (overrun ctl the_ttl i w)
  then show ?case by (auto simp: probe_loop_overrun)
next
  case (overread ctl the_ttl i w t ok w1)
  from overread(6) sendto_call_not_final [OF overread(7), of "record_probe ctl the_ttl t" the_ttl t]
  show ?case
    by (auto simp: probe_loop_overread [OF overread(1-5)])
next
  case (sent ctl the_ttl i w t ok w1)
  let ?c1 = "record_probe ctl the_ttl t"
  note ne = sendto_call_not_final [OF sent(7), of ?c1 the_ttl t]
  from sent(6) obtain o' where
    pw: "probe_wait (?c1\<lparr>hisptr := (hisptr ?c1 + 1) AND 63\<rparr>) the_ttl w1 = (r, ctl', w', o')"
    and o: "out = [sendto_call ?c1 the_ttl t] @ o'"
    by (auto simp: probe_loop_sent [OF sent(1-5)] emit_eq)
  from probe_wait_final_last [OF pw sent(7)] o ne show ?case
    by (auto intro: ends_with_Cons)
next
  case (failed ctl the_ttl i w t ok w1 res ctl2 q' out0)
  let ?ev = "sendto_call (record_probe ctl the_ttl t) the_ttl t"
  note ne = sendto_call_not_final [OF failed(8), of "record_probe ctl the_ttl t" the_ttl t]
  note h = recverr_final_last [OF failed(5) failed(8)]
  show ?case
  proof (cases "res = 0")
    case True
    with failed(7) have "r = Res 0" "out = [?ev] @ out0"
      by (simp_all add: probe_loop_failed [OF failed(1-5)])
    with h True ne show ?thesis
      by (auto intro: ends_with_Cons)
  next
    case False
    with failed(7) obtain o' where
      pl: "probe_loop (clear_probe ctl2) the_ttl (if res > 0 then 0 else i + 1) (w1\<lparr>recvmsg_rets := q'\<rparr>)
         = (r, ctl', w', o')"
      and o: "out = ([?ev] @ out0) @ o'"
      by (auto simp: probe_loop_failed [OF failed(1-5)] emit_eq)
    from h False ne have n: "ev \<notin> set ([?ev] @ out0)" by auto
    from failed(6) [OF False pl failed(8)] show ?thesis
    proof
      assume "ev \<notin> set o'"
      with n o show ?thesis by simp
    next
      assume "r = Res 0 \<and> ends_with ev o'"
      with ends_with_prepend [OF n, of o'] o show ?thesis by simp
    qed
  qed
qed

lemma probe_ttl_final_last:
  "probe_ttl ctl t w = (r, ctl', w', out) \<Longrightarrow> final_event ev \<Longrightarrow>
   ev \<notin> set out \<or> (r = Res 0 \<and> ends_with ev out)"
  by (erule probe_ttl_cases) (auto dest: probe_loop_final_last)

lemma probe_ttl_no_pmtu:
  "probe_ttl ctl t w = (r, ctl', w', out) \<Longrightarrow> no_pmtu out \<Longrightarrow> mtu ctl' = mtu ctl"
  using probe_ttl_tracks [of ctl t w r ctl' w' out] by (simp add: tracks_def no_pmtu_cur_mtu)

lemma attempts_final_last:
  "attempts ctl t i res w = (st, ctl', w', out) \<Longrightarrow> no_pmtu out \<Longrightarrow> final_event ev \<Longrightarrow>
   ev \<notin> set out \<or> (st = Goto_done \<and> ends_with ev out)"
proof (induction ctl t i res w arbitrary: st out rule: attempts_cases)
  case (left ctl the_ttl i res w)
  then show ?case by (simp add: attempts_left)
next
  case (overrun ctl the_ttl i res w c1 w1 o1)
  from overrun(3) probe_ttl_final_last [OF overrun(2) overrun(5)] show ?case
    by (simp add: attempts_overrun [OF overrun(1,2)])
next
  case (step ctl the_ttl i res w r1 c1 w1 o1)
  note h = probe_ttl_final_last [OF step(2) step(7)]
  show ?case
  proof (cases "mtu c1 = mtu ctl \<and> r1 \<ge> 0")
    case True
    with step(5) have "out = o1" "r1 = 0 \<longrightarrow> st = Goto_done"
      by (auto simp: attempts_step [OF step(1,2)] split: if_splits)
    with h show ?thesis by auto
  next
    case False
    with step(5) obtain o' i' where
      a: "attempts c1 the_ttl i' r1 w1 = (st, ctl', w', o')"
      and i': "i' = (if mtu c1 \<noteq> mtu ctl then 0 else i + 1)"
      and o: "out = o1 @ o'"
      by (auto simp: attempts_step [OF step(1,2)] emit_eq split: if_splits)
    from o step(6) have np: "no_pmtu o1" "no_pmtu o'" by simp_all
    from probe_ttl_no_pmtu [OF step(2) np(1)] False have neg: "r1 < 0" by simp
    with h have n1: "ev \<notin> set o1" by auto
    from probe_ttl_no_pmtu [OF step(2) np(1)] i' have "i' = i + 1" by simp
    with step(4) [OF probe_ttl_no_pmtu [OF step(2) np(1)] neg] a np(2) step(7)
    have "ev \<notin> set o' \<or> (st = Goto_done \<and> ends_with ev o')" by simp
    with n1 o show ?thesis by (auto intro: ends_with_prepend)
  qed
qed

lemma ttl_loop_final_last:
  "ttl_loop ctl fam t w = (st, ctl', w', out) \<Longrightarrow> no_pmtu out \<Longrightarrow> final_event ev \<Longrightarrow>
   ev \<notin> set out \<or>
   (st = Exit 0 \<and> (\<exists>pre a b c. out = pre @ [ev, Out_resume a b c] \<and> ev \<notin> set pre))"
proof (induction ctl fam t w arbitrary: st out rule: ttl_loop.induct)
  case (1 ctl fam the_ttl w)
  note fe = "1.prems"(3)
  show ?case
  proof (cases "the_ttl \<le> max_hops ctl")
    case False
    with "1.prems"(1) fe show ?thesis
      by (auto simp: ttl_loop_end emit_def at_done_def final_event_def)
  next
    case True
    obtain er w1 where sh: "set_hoplimit ctl fam w = (er, w1)"
      by (cases "set_hoplimit ctl fam w") auto
    show ?thesis
    proof (cases er)
      case (Some err)
      with "1.prems"(1) sh True fe show ?thesis
        by (auto simp: ttl_loop_sockerr final_event_def)
    next
      case None
      obtain sg c1 w2 o1 where at: "attempts ctl the_ttl 0 0 w1 = (sg, c1, w2, o1)"
        by (metis prod_cases4)
      show ?thesis
      proof (cases sg)
        case Goto_done
        let ?rs = "Out_resume (mtu c1)
                     (if hops_to c1 \<ge> 0 then Some (hops_to c1) else None)
                     (if hops_from c1 \<ge> 0 then Some (hops_from c1) else None)"
        from ttl_loop_done [OF True sh [unfolded None] at [unfolded Goto_done]] "1.prems"(1)
        have st: "st = Exit 0" and o: "out = o1 @ [?rs]"
          by simp_all
        from o "1.prems"(2) have "no_pmtu o1" by simp
        from attempts_final_last [OF at this fe]
        show ?thesis
        proof
          assume "ev \<notin> set o1"
          with o fe show ?thesis by (auto simp: final_event_def)
        next
          assume "sg = Goto_done \<and> ends_with ev o1"
          then obtain pre where "o1 = pre @ [ev]" "ev \<notin> set pre"
            unfolding ends_with_def by blast
          with o have "out = pre @ [ev, ?rs] \<and> ev \<notin> set pre" by simp
          with st show ?thesis by blast
        qed
      next
        case (Left_loop res)
        let ?nr = "if res < 0 then [Out_no_reply the_ttl] else []"
        from ttl_loop_next [OF True sh [unfolded None] at [unfolded Left_loop]] "1.prems"(1)
        have "emit (o1 @ ?nr) (ttl_loop c1 fam (the_ttl + 1) w2) = (st, ctl', w', out)"
          by simp
        then obtain o' where tl: "ttl_loop c1 fam (the_ttl + 1) w2 = (st, ctl', w', o')"
          and o: "out = (o1 @ ?nr) @ o'"
          unfolding emit_eq by blast
        from o "1.prems"(2) have np: "no_pmtu o1" "no_pmtu o'" by simp_all
        from attempts_final_last [OF at np(1) fe] Left_loop fe
        have n1: "ev \<notin> set (o1 @ ?nr)" by (auto simp: final_event_def)
        from "1.IH" [OF True sh [symmetric, unfolded None] refl
            at [symmetric, unfolded Left_loop] refl refl refl tl np(2) fe]
        show ?thesis
        proof
          assume "ev \<notin> set o'"
          with n1 o show ?thesis by simp
        next
          assume "st = Exit 0 \<and>
            (\<exists>pre a b c. o' = pre @ [ev, Out_resume a b c] \<and> ev \<notin> set pre)"
          then obtain pre a b c where st: "st = Exit 0"
            and p: "o' = pre @ [ev, Out_resume a b c]" "ev \<notin> set pre"
            by blast
          from p o n1 have "out = ((o1 @ ?nr) @ pre) @ [ev, Out_resume a b c] \<and>
              ev \<notin> set ((o1 @ ?nr) @ pre)"
            by simp
          with st show ?thesis by blast
        qed
      next
        case Overran
        from ttl_loop_overran [OF True sh [unfolded None] at [unfolded Overran]] "1.prems"(1)
        have "out = o1" by simp
        with attempts_final_last [OF at _ fe] "1.prems"(2) Overran show ?thesis by auto
      qed
    qed
  qed
qed

lemma final_once:
  assumes "out = pre @ [ev, Out_resume a b c]" and "ev \<notin> set pre" and "final_event ev"
  shows "count_list out ev = 1"
  using assms by (auto simp: count_list_0_iff final_event_def)

lemma ttl_loop_final_once:
  assumes "ttl_loop ctl fam t w = (st, ctl', w', out)" and "no_pmtu out" and "final_event ev"
  shows "count_list out ev \<le> 1 \<and>
         (ev \<in> set out \<longrightarrow>
            st = Exit 0 \<and> (\<exists>pre a b c. out = pre @ [ev, Out_resume a b c]))"
  using ttl_loop_final_last [OF assms]
proof
  assume "ev \<notin> set out"
  then show ?thesis by (simp add: count_list_0_iff)
next
  assume "st = Exit 0 \<and>
     (\<exists>pre a b c. out = pre @ [ev, Out_resume a b c] \<and> ev \<notin> set pre)"
  then obtain pre a b c where "st = Exit 0" "out = pre @ [ev, Out_resume a b c]"
    "ev \<notin> set pre"
    by blast
  with final_once [OF this(2,3) assms(3)] show ?thesis by auto
qed


section \<open>Destination reached\<close>





section \<open>Host unreachable\<close>

text \<open>With a hop limit from 0 to 255, or with none, the receive-side hop count is positive.\<close>

lemma rethops_of_positive: "hoplimit_in_range m \<Longrightarrow> 0 < rethops_of m"
  by (auto simp: hoplimit_in_range_def rethops_of_eq norm_rethops_def int32_id
      split: option.splits)

text \<open>
  Claim C9, as the code has it.  A host-unreachable notification with the canonical
  type and code (ICMP 11/0 or ICMPv6 3/0) is informational: the decoder goes on with the
  next message, and when the receive-side hop count differs from the send-side hop count
  (from the TTL of the probe when the send-side value is negative), the output has the
  asymmetry note with the receive-side value; this is for every notification whose hop
  limit, if it has one, is from 0 to 255.  With any other type or code the decoder
  prints \<^verbatim>\<open>!H\<close> and returns 0 at once.  Whatever the index of the attempt, the attempt
  loop then ends with \<^verbatim>\<open>goto done\<close> when the MTU estimate is the same as before the
  probe, and the run prints the summary and exits with status 0; when the estimate is
  not the same, line 617 starts the stage again instead.  So in a run during which the
  MTU estimate never changes, \<^verbatim>\<open>!H\<close> is followed by the summary and nothing else.
\<close>

theorem host_unreachable:
  "(errrec_of m = Some e \<and> ee_errno e = EHOSTUNREACH \<and> canonical e \<longrightarrow>
      (\<exists>c' out.
         recverr_msg ctl t m = (Restart (mtu ctl), c', out) \<and>
         recverr_loop p ctl t (Recvmsg_ok m # q) = emit out (recverr_loop (mtu ctl) c' t q) \<and>
         (hoplimit_in_range m \<and>
          rethops_of m \<noteq> (if 0 \<le> sndhops_of ctl m then sndhops_of ctl m else t) \<longrightarrow>
            Out_asymm (rethops_of m) \<in> set out))) \<and>
   (errrec_of m = Some e \<and> ee_errno e = EHOSTUNREACH \<and> \<not> canonical e \<longrightarrow>
      (\<exists>c' out.
         recverr_loop p ctl t (Recvmsg_ok m # q) = (0, c', q, out) \<and>
         mtu c' = mtu ctl \<and> Out_bang_H \<in> set out)) \<and>
   (i < 3 \<and> probe_ttl ctl t w = (Res 0, cb, wb, outb) \<longrightarrow>
      attempts ctl t i res w =
        (if mtu cb = mtu ctl then (Goto_done, cb, wb, outb)
         else emit outb (attempts cb t 0 0 wb))) \<and>
   (t \<le> max_hops ctl \<and> set_hoplimit ctl fam wz = (None, w) \<and>
    attempts ctl t 0 0 w = (Goto_done, cc, wc, outc) \<longrightarrow>
      ttl_loop ctl fam t wz =
        (Exit 0, cc, wc,
         outc @ [Out_resume (mtu cc)
                   (if hops_to cc \<ge> 0 then Some (hops_to cc) else None)
                   (if hops_from cc \<ge> 0 then Some (hops_from cc) else None)])) \<and>
   (ttl_loop ctl fam t wz = (st, cd, wd, outd) \<and> no_pmtu outd \<and> Out_bang_H \<in> set outd \<longrightarrow>
      st = Exit 0 \<and> (\<exists>pre a b c. outd = pre @ [Out_bang_H, Out_resume a b c]))"
proof (intro conjI impI; (elim conjE)?)
  assume e: "errrec_of m = Some e" "ee_errno e = EHOSTUNREACH" "canonical e"
  obtain fl c' out where r: "recverr_msg ctl t m = (fl, c', out)"
    by (metis prod_cases3)
  note f = recverr_msg_unreach_canonical [OF e r]
  with r have r': "recverr_msg ctl t m = (Restart (mtu ctl), c', out)" by simp
  from f rethops_of_positive [of m]
  have "hoplimit_in_range m \<and>
          rethops_of m \<noteq> (if 0 \<le> sndhops_of ctl m then sndhops_of ctl m else t) \<longrightarrow>
            Out_asymm (rethops_of m) \<in> set out"
    by auto
  with r' recverr_loop_restart [OF r', of p q]
  show "\<exists>c' out.
         recverr_msg ctl t m = (Restart (mtu ctl), c', out) \<and>
         recverr_loop p ctl t (Recvmsg_ok m # q) = emit out (recverr_loop (mtu ctl) c' t q) \<and>
         (hoplimit_in_range m \<and>
          rethops_of m \<noteq> (if 0 \<le> sndhops_of ctl m then sndhops_of ctl m else t) \<longrightarrow>
            Out_asymm (rethops_of m) \<in> set out)"
    by blast
next
  assume e: "errrec_of m = Some e" "ee_errno e = EHOSTUNREACH" "\<not> canonical e"
  obtain fl c' out where r: "recverr_msg ctl t m = (fl, c', out)"
    by (metis prod_cases3)
  note f = recverr_msg_unreach_other [OF e r]
  with r have "recverr_loop p ctl t (Recvmsg_ok m # q) = (0, c', q, out)"
    by (simp add: recverr_loop_return)
  with f show "\<exists>c' out. recverr_loop p ctl t (Recvmsg_ok m # q) = (0, c', q, out) \<and>
         mtu c' = mtu ctl \<and> Out_bang_H \<in> set out"
    by blast
next
  assume "i < 3" "probe_ttl ctl t w = (Res 0, cb, wb, outb)"
  then show "attempts ctl t i res w =
        (if mtu cb = mtu ctl then (Goto_done, cb, wb, outb)
         else emit outb (attempts cb t 0 0 wb))"
    by (simp add: attempts_step)
next
  assume "t \<le> max_hops ctl" "set_hoplimit ctl fam wz = (None, w)"
    "attempts ctl t 0 0 w = (Goto_done, cc, wc, outc)"
  then show "ttl_loop ctl fam t wz =
        (Exit 0, cc, wc,
         outc @ [Out_resume (mtu cc)
                   (if hops_to cc \<ge> 0 then Some (hops_to cc) else None)
                   (if hops_from cc \<ge> 0 then Some (hops_from cc) else None)])"
    by (rule ttl_loop_done)
next
  assume "ttl_loop ctl fam t wz = (st, cd, wd, outd)" "no_pmtu outd" "Out_bang_H \<in> set outd"
  with ttl_loop_final_once [OF this(1,2), of Out_bang_H]
  show "st = Exit 0" and "\<exists>pre a b c. outd = pre @ [Out_bang_H, Out_resume a b c]"
    by (simp_all add: final_event_def)
qed

text \<open>
  With \<open>max_hops = 1\<close>, the first probe draws a message-too-big notification and then
  a host-unreachable one of code 1: after \<^verbatim>\<open>!H\<close> the run sends three more probes.
\<close>

theorem host_unreachable_counterexample:
  "snd (snd (snd (tracepath_main (ctl_parsed\<lparr>mtu := 1500, max_hops := 1\<rparr>) AF_INET False
                    w_unreach_after_pmtu))) =
     [Sendto 1472 44444 \<lparr>ttl = 1, tv = tv_at 100\<rparr>, Out_hop 1, Out_host, Out_rtt 5 0,
      Out_pmtu 1400, Out_hop_guess 1, Out_host, Out_bang_H,
      Sendto 1372 44445 \<lparr>ttl = 1, tv = tv_at 100\<rparr>,
      Sendto 1372 44446 \<lparr>ttl = 1, tv = tv_at 100\<rparr>,
      Sendto 1372 44447 \<lparr>ttl = 1, tv = tv_at 100\<rparr>,
      Out_no_reply 1, Out_too_many_hops 1400, Out_resume 1400 None None]"
  by (simp add: run_defs probe_defs w_unreach_after_pmtu_def tv_at_def ex_defs dec_defs)

text \<open>
  A time-exceeded notification that arrives with hop limit 60 for a probe of TTL 1 gets
  the asymmetry note with 5.  A host-unreachable notification of code 1 makes the decoder
  return 0 and leave the rest of the queue, and the run it ends exits with status 0
  after the summary.
\<close>

theorem host_unreachable_witness:
  "Out_asymm 5 \<in> set (snd (snd (recverr_msg ctl_live0 1
       (icmp_msg EHOSTUNREACH 11 0 0 44444 [Cmsg_IP_TTL 60])))) \<and>
   fst (recverr_loop (-1) ctl_live0 1
       [Recvmsg_ok (icmp_msg EHOSTUNREACH 3 1 0 44444 []), Recvmsg_EAGAIN]) = 0 \<and>
   fst (snd (snd (recverr_loop (-1) ctl_live0 1
       [Recvmsg_ok (icmp_msg EHOSTUNREACH 3 1 0 44444 []), Recvmsg_EAGAIN]))) = [Recvmsg_EAGAIN] \<and>
   fst (attempts ctl_v4 1 2 (-1) w_unreach) = Goto_done \<and>
   fst (ttl_loop ctl_v4 AF_INET 1 w_unreach) = Exit 0 \<and>
   snd (snd (snd (ttl_loop ctl_v4 AF_INET 1 w_unreach))) =
     [Sendto 1472 44444 \<lparr>ttl = 1, tv = tv_at 100\<rparr>, Out_hop 1, Out_host, Out_rtt 5 0,
      Out_bang_H, Out_resume 1500 None None]"
proof -
  let ?m = "icmp_msg EHOSTUNREACH 11 0 0 44444 [Cmsg_IP_TTL 60]"
  let ?e = "\<lparr>ee_errno = EHOSTUNREACH, ee_origin = SO_EE_ORIGIN_ICMP, ee_type = 11,
             ee_code = 0, ee_info = 0\<rparr>"
  let ?m' = "icmp_msg EHOSTUNREACH 3 1 0 44444 []"
  let ?e' = "\<lparr>ee_errno = EHOSTUNREACH, ee_origin = SO_EE_ORIGIN_ICMP, ee_type = 3,
             ee_code = 1, ee_info = 0\<rparr>"
  have e: "errrec_of ?m = Some ?e \<and> ee_errno ?e = EHOSTUNREACH \<and> canonical ?e"
    by (simp add: errrec_of_def icmp_msg_def canonical_def)
  have hl: "hoplimit_in_range ?m"
    by (simp add: hoplimit_in_range_def icmp_msg_def)
  have rh: "rethops_of ?m = 5"
    by (simp add: rethops_of_def icmp_msg_def norm_rethops_def int32_def)
  have sh: "sndhops_of ctl_live0 ?m = 1"
    by (simp add: sndhops_of_def his_of_def icmp_msg_def take_his_def slot_of_def use_payload_def
        sizeof_probehdr_def ctl_live0_def ex_defs)
  from host_unreachable [where m = ?m and e = ?e and ctl = ctl_live0 and t = 1 and p = "-1"
      and q = "[]", THEN conjunct1] e
  obtain c' out where "recverr_msg ctl_live0 1 ?m = (Restart (mtu ctl_live0), c', out)"
    and "hoplimit_in_range ?m \<and>
          rethops_of ?m \<noteq> (if 0 \<le> sndhops_of ctl_live0 ?m then sndhops_of ctl_live0 ?m else 1) \<longrightarrow>
            Out_asymm (rethops_of ?m) \<in> set out"
    by blast
  with rh sh hl have a: "Out_asymm 5 \<in> set (snd (snd (recverr_msg ctl_live0 1 ?m)))"
    by simp
  have e': "errrec_of ?m' = Some ?e' \<and> ee_errno ?e' = EHOSTUNREACH \<and> \<not> canonical ?e'"
    by (simp add: errrec_of_def icmp_msg_def canonical_def)
  from host_unreachable [where m = ?m' and e = ?e' and ctl = ctl_live0 and t = 1 and p = "-1"
      and q = "[Recvmsg_EAGAIN]", THEN conjunct2, THEN conjunct1] e'
  obtain c'' out' where
    b: "recverr_loop (-1) ctl_live0 1 [Recvmsg_ok ?m', Recvmsg_EAGAIN] = (0, c'', [Recvmsg_EAGAIN], out')"
    by blast
  obtain r2 c2 w2 o2 where p: "probe_ttl ctl_v4 1 w_unreach = (r2, c2, w2, o2)"
    by (metis prod_cases4)
  from p have v: "r2 = Res 0 \<and> mtu c2 = 1500 \<and> hops_to c2 = -1 \<and> hops_from c2 = -1 \<and>
      o2 = [Sendto 1472 44444 \<lparr>ttl = 1, tv = tv_at 100\<rparr>, Out_hop 1, Out_host, Out_rtt 5 0,
            Out_bang_H]"
    by (simp add: probe_defs w_unreach_def tv_at_def ex_defs dec_defs) auto
  with p have p': "probe_ttl ctl_v4 1 w_unreach = (Res 0, c2, w2, o2)" by simp
  have s: "set_hoplimit ctl_v4 AF_INET w_unreach = (None, w_unreach)"
    by (simp add: set_hoplimit_def set_hoplimit_v4_def setsockopt_def w_unreach_def)
  from v have same: "mtu c2 = mtu ctl_v4" by (simp add: ex_defs)
  from host_unreachable [where ctl = ctl_v4 and t = 1 and i = 2 and res = "-1"
      and w = w_unreach and cb = c2 and wb = w2 and outb = o2,
      THEN conjunct2, THEN conjunct2, THEN conjunct1] p' same
  have at2: "attempts ctl_v4 1 2 (-1) w_unreach = (Goto_done, c2, w2, o2)"
    by simp
  from host_unreachable [where ctl = ctl_v4 and t = 1 and i = 0 and res = 0
      and w = w_unreach and cb = c2 and wb = w2 and outb = o2,
      THEN conjunct2, THEN conjunct2, THEN conjunct1] p' same
  have at: "attempts ctl_v4 1 0 0 w_unreach = (Goto_done, c2, w2, o2)"
    by simp
  from host_unreachable [where ctl = ctl_v4 and t = 1 and fam = AF_INET
      and wz = w_unreach and w = w_unreach and cc = c2 and wc = w2 and outc = o2,
      THEN conjunct2, THEN conjunct2, THEN conjunct2, THEN conjunct1] s at
  have "ttl_loop ctl_v4 AF_INET 1 w_unreach =
      (Exit 0, c2, w2, o2 @ [Out_resume (mtu c2)
                   (if hops_to c2 \<ge> 0 then Some (hops_to c2) else None)
                   (if hops_from c2 \<ge> 0 then Some (hops_from c2) else None)])"
    by (simp add: ex_defs)
  with v have tl: "ttl_loop ctl_v4 AF_INET 1 w_unreach =
      (Exit 0, c2, w2, o2 @ [Out_resume 1500 None None])"
    by simp
  have "no_pmtu (o2 @ [Out_resume 1500 None None]) \<and>
        Out_bang_H \<in> set (o2 @ [Out_resume 1500 None None])"
    using v by (simp add: no_pmtu_def)
  with host_unreachable [where ctl = ctl_v4 and t = 1 and fam = AF_INET
      and wz = w_unreach and st = "Exit 0" and cd = c2 and wd = w2
      and outd = "o2 @ [Out_resume 1500 None None]",
      THEN conjunct2, THEN conjunct2, THEN conjunct2, THEN conjunct2] tl
  have "\<exists>pre a b c. o2 @ [Out_resume 1500 None None] = pre @ [Out_bang_H, Out_resume a b c]"
    by blast
  with tl v a b at2 show ?thesis by simp
qed

end
